theory Spec2Isabelle
  imports Main
begin

section \<open>Playlist store (src/utils/playlists.ts)\<close>

text \<open>
  A stored track and a playlist, field by field as the two interfaces declare them.
  Optional fields (\<^verbatim>\<open>id?\<close>, \<^verbatim>\<open>url?\<close>) are options. Time stamps are the clock reading in
  milliseconds; their ISO rendering is not modelled.
\<close>

record StoredTrack =
  id_t :: "string option"
  title :: string
  url :: "string option"
  addedAt :: nat

record Playlist =
  id_p :: string
  name :: string
  tracks :: "StoredTrack list"
  createdAt :: nat

text \<open>
  The playlists file. \<open>Absent\<close> and \<open>Unparsable\<close> make \<^verbatim>\<open>readFile\<close> or \<^verbatim>\<open>JSON.parse\<close> raise;
  \<open>NotAnArray\<close> is a file that parses to a JSON value other than an array, which the
  unchecked cast \<^verbatim>\<open>as Playlist[]\<close> lets through; \<open>Stored\<close> is an array of playlists. Arrays
  with elements of another shape are outside the model.
\<close>

datatype file_content = Absent | Unparsable | NotAnArray | Stored "Playlist list"

record disk =
  content :: file_content
  writable :: bool

datatype loaded = Junk | Lists "Playlist list"

datatype error = TypeError | WriteFailed | PlaylistNotFound | TrackIndexOutOfRange

definition loadPlaylists :: "disk \<Rightarrow> loaded" where
  "loadPlaylists d =
     (case content d of
        Absent \<Rightarrow> Lists []
      | Unparsable \<Rightarrow> Lists []
      | NotAnArray \<Rightarrow> Junk
      | Stored ls \<Rightarrow> Lists ls)"

definition savePlaylists :: "disk \<Rightarrow> Playlist list \<Rightarrow> error + disk" where
  "savePlaylists d ls =
     (if writable d then Inr (d\<lparr>content := Stored ls\<rparr>) else Inl WriteFailed)"

subsection \<open>Number.prototype.toString(36) on a non-negative integer\<close>

definition digits36 :: string where
  "digits36 = ''0123456789abcdefghijklmnopqrstuvwxyz''"

definition digit36 :: "nat \<Rightarrow> char" where
  "digit36 d = digits36 ! d"

function toString36 :: "nat \<Rightarrow> string" where
  "toString36 n =
     (if n < 36 then [digit36 n] else toString36 (n div 36) @ [digit36 (n mod 36)])"
  by pat_completeness auto
termination
  by (relation "measure (\<lambda>n. n)") auto

declare toString36.simps [simp del]

subsection \<open>The operations\<close>

text \<open>
  \<open>now\<close> is what \<^verbatim>\<open>Date.now()\<close> reads and \<open>stamp\<close> what \<^verbatim>\<open>new Date()\<close> reads a moment
  later. The result carries the disk after the write and the playlist returned.
\<close>

definition createPlaylist :: "nat \<Rightarrow> nat \<Rightarrow> string \<Rightarrow> disk \<Rightarrow> error + (disk \<times> Playlist)" where
  "createPlaylist now stamp nm d =
     (case loadPlaylists d of
        Junk \<Rightarrow> Inl TypeError
      | Lists ls \<Rightarrow>
          (let p = \<lparr>id_p = toString36 now, name = nm, tracks = [], createdAt = stamp\<rparr>
           in case savePlaylists d (ls @ [p]) of
                Inl e \<Rightarrow> Inl e
              | Inr d' \<Rightarrow> Inr (d', p)))"

definition listPlaylists :: "disk \<Rightarrow> loaded" where
  "listPlaylists d = loadPlaylists d"

definition matches :: "string \<Rightarrow> Playlist \<Rightarrow> bool" where
  "matches idOrName p \<longleftrightarrow> id_p p = idOrName \<or> name p = idOrName"

text \<open>\<^verbatim>\<open>Array.prototype.findIndex\<close>: the first index whose element satisfies the test, or -1.\<close>

fun findIndex :: "('a \<Rightarrow> bool) \<Rightarrow> 'a list \<Rightarrow> int" where
  "findIndex P [] = -1"
| "findIndex P (x # xs) =
     (if P x then 0 else (let r = findIndex P xs in if r = -1 then -1 else r + 1))"

definition getPlaylist :: "string \<Rightarrow> disk \<Rightarrow> error + Playlist option" where
  "getPlaylist idOrName d =
     (case loadPlaylists d of
        Junk \<Rightarrow> Inl TypeError
      | Lists ls \<Rightarrow> Inr (find (matches idOrName) ls))"

definition addTrackToPlaylist ::
  "nat \<Rightarrow> string \<Rightarrow> StoredTrack \<Rightarrow> disk \<Rightarrow> error + (disk \<times> Playlist)" where
  "addTrackToPlaylist stamp playlistIdOrName track d =
     (case loadPlaylists d of
        Junk \<Rightarrow> Inl TypeError
      | Lists ls \<Rightarrow>
          (let idx = findIndex (matches playlistIdOrName) ls
           in if idx = -1 then Inl PlaylistNotFound
              else
                (let p = ls ! nat idx;
                     p' = p\<lparr>tracks := tracks p @ [track\<lparr>addedAt := stamp\<rparr>]\<rparr>;
                     ls' = ls[nat idx := p']
                 in case savePlaylists d ls' of
                      Inl e \<Rightarrow> Inl e
                    | Inr d' \<Rightarrow> Inr (d', p'))))"

text \<open>\<^verbatim>\<open>splice(i, 1)\<close> at an index in range.\<close>

definition splice1 :: "nat \<Rightarrow> 'a list \<Rightarrow> 'a list" where
  "splice1 i xs = take i xs @ drop (Suc i) xs"

definition removeTrackFromPlaylist :: "string \<Rightarrow> int \<Rightarrow> disk \<Rightarrow> error + disk" where
  "removeTrackFromPlaylist playlistIdOrName trackIndex d =
     (case loadPlaylists d of
        Junk \<Rightarrow> Inl TypeError
      | Lists ls \<Rightarrow>
          (let idx = findIndex (matches playlistIdOrName) ls
           in if idx = -1 then Inl PlaylistNotFound
              else
                (let p = ls ! nat idx
                 in if trackIndex < 0 \<or> trackIndex \<ge> int (length (tracks p))
                    then Inl TrackIndexOutOfRange
                    else savePlaylists d
                           (ls[nat idx := p\<lparr>tracks := splice1 (nat trackIndex) (tracks p)\<rparr>]))))"

definition deletePlaylist :: "string \<Rightarrow> disk \<Rightarrow> error + disk" where
  "deletePlaylist playlistIdOrName d =
     (case loadPlaylists d of
        Junk \<Rightarrow> Inl TypeError
      | Lists ls \<Rightarrow>
          savePlaylists d
            (filter (\<lambda>p. id_p p \<noteq> playlistIdOrName \<and> name p \<noteq> playlistIdOrName) ls))"

section \<open>Child processes and awaited results\<close>

text \<open>
  JavaScript truthiness of an optional string: \<^verbatim>\<open>undefined\<close>, \<^verbatim>\<open>null\<close> and the empty
  string are falsy. \<open>str\<close> reads a value known to be truthy.
\<close>

definition truthy :: "string option \<Rightarrow> bool" where
  "truthy v = (case v of None \<Rightarrow> False | Some x \<Rightarrow> x \<noteq> [])"

definition str :: "string option \<Rightarrow> string" where
  "str v = (case v of None \<Rightarrow> [] | Some x \<Rightarrow> x)"

text \<open>
  What an \<^verbatim>\<open>await\<close> can do: deliver a value, raise, or never settle.
\<close>

datatype 'a outcome = Returns 'a | Throws string | Hangs

text \<open>
  The two \<^verbatim>\<open>stdio\<close> options the code passes: \<^verbatim>\<open>"ignore"\<close> and
  \<^verbatim>\<open>["pipe", "ignore", "pipe"]\<close>.
\<close>

datatype stdio = Ignore | PipeIgnorePipe

text \<open>
  The events a child process emits, in the order they fire; an exit code is \<open>None\<close> when
  the child was ended by a signal. \<^verbatim>\<open>spawn\<close> itself either raises or hands back a child.
\<close>

datatype child_event = OnError string | OnClose "int option" | OnExit "int option"

datatype spawned = SpawnThrows string | Child "child_event list"

text \<open>
  The operating system as one call sees it: the platform name, what spawning a candidate
  with \<^verbatim>\<open>--version\<close> does, and what spawning a player on arguments does.
\<close>

record os =
  platform :: string
  probe :: "string \<Rightarrow> spawned"
  launch :: "string \<Rightarrow> string list \<Rightarrow> stdio \<Rightarrow> spawned"

subsection \<open>detectAudioPlayer (utils/ytdlp.ts)\<close>

definition players :: "string \<Rightarrow> string list option" where
  "players plat =
     (if plat = ''darwin'' then Some [''afplay'', ''cvlc'', ''mpv'']
      else if plat = ''linux'' then Some [''cvlc'', ''mpv'', ''aplay'']
      else if plat = ''win32'' then Some [''cvlc'', ''mpv'']
      else None)"

definition availablePlayers :: "string \<Rightarrow> string list" where
  "availablePlayers plat =
     (case players plat of
        Some ps \<Rightarrow> ps
      | None \<Rightarrow> (case players ''linux'' of Some ps \<Rightarrow> ps | None \<Rightarrow> []))"

text \<open>
  The promise around one probe. Only \<^verbatim>\<open>close\<close> and \<^verbatim>\<open>error\<close> have handlers; a promise
  settles at most once, later calls of \<^verbatim>\<open>resolve\<close> or \<^verbatim>\<open>reject\<close> are ignored. A \<^verbatim>\<open>spawn\<close>
  that raises inside the executor rejects the promise.
\<close>

datatype settled = Pending | Resolved | Rejected

fun probe_on :: "child_event \<Rightarrow> settled \<Rightarrow> settled" where
  "probe_on (OnClose code) st =
     (if st = Pending then (if code = Some 0 then Resolved else Rejected) else st)"
| "probe_on (OnError e) st = (if st = Pending then Rejected else st)"
| "probe_on (OnExit code) st = st"

definition probe_promise :: "spawned \<Rightarrow> settled" where
  "probe_promise sp =
     (case sp of
        SpawnThrows e \<Rightarrow> Rejected
      | Child evs \<Rightarrow> fold probe_on evs Pending)"

text \<open>
  The loop over the candidates. The second component lists the candidates that were
  spawned, in order.
\<close>

fun detect_loop :: "(string \<Rightarrow> spawned) \<Rightarrow> string list \<Rightarrow> string option outcome \<times> string list" where
  "detect_loop pr [] = (Returns None, [])"
| "detect_loop pr (player # rest) =
     (case probe_promise (pr player) of
        Resolved \<Rightarrow> (Returns (Some player), [player])
      | Rejected \<Rightarrow> (let (r, tried) = detect_loop pr rest in (r, player # tried))
      | Pending \<Rightarrow> (Hangs, [player]))"

definition detectAudioPlayer :: "os \<Rightarrow> string option outcome \<times> string list" where
  "detectAudioPlayer sys = detect_loop (probe sys) (availablePlayers (platform sys))"

subsection \<open>playAndAwait (utils/index.ts)\<close>

text \<open>The command, argument vector and stdio option of the \<^verbatim>\<open>spawn\<close> call, branch by branch.\<close>

definition playAndAwait_spawn :: "string \<Rightarrow> string \<Rightarrow> string \<times> string list \<times> stdio" where
  "playAndAwait_spawn audioPlayer u =
     (if audioPlayer = ''aplay'' then (''aplay'', [''-f'', ''cd''], PipeIgnorePipe)
      else if audioPlayer = ''cvlc''
        then (audioPlayer, [u, ''--intf'', ''dummy'', ''--play-and-exit''], Ignore)
      else if audioPlayer = ''mpv''
        then (audioPlayer, [u, ''--no-video'', ''--really-quiet''], Ignore)
      else if audioPlayer = ''afplay'' then (audioPlayer, [u], Ignore)
      else (audioPlayer, [u], Ignore))"

text \<open>
  The promise around the child: the local flag \<^verbatim>\<open>finished\<close>, every value handed to
  \<^verbatim>\<open>resolve\<close> in call order, and what \<^verbatim>\<open>console.error\<close> printed.
\<close>

datatype message =
    NoAudioPlayerFound
  | PlaybackFailed string
  | PlaybackError string

record awaiting =
  finished :: bool
  resolved :: "bool list"
  printed :: "message list"

fun on_event :: "child_event \<Rightarrow> awaiting \<Rightarrow> awaiting" where
  "on_event (OnError msg) a =
     (if \<not> finished a
      then a\<lparr>finished := True, printed := printed a @ [PlaybackFailed msg],
             resolved := resolved a @ [False]\<rparr>
      else a)"
| "on_event (OnClose code) a =
     (if \<not> finished a
      then a\<lparr>finished := True, resolved := resolved a @ [code = Some 0]\<rparr>
      else a)"
| "on_event (OnExit code) a =
     (if \<not> finished a
      then a\<lparr>finished := True, resolved := resolved a @ [code = Some 0]\<rparr>
      else a)"

definition await_child :: "child_event list \<Rightarrow> awaiting" where
  "await_child evs = fold on_event evs \<lparr>finished = False, resolved = [], printed = []\<rparr>"

text \<open>
  One call of \<^verbatim>\<open>playAndAwait\<close>: the candidates probed, the \<^verbatim>\<open>spawn\<close> call made (if any),
  the values handed to \<^verbatim>\<open>resolve\<close>, the messages printed and what the call returns. The
  promise delivers the first value handed to \<^verbatim>\<open>resolve\<close>.
\<close>

record play_report =
  tried :: "string list"
  spawn_call :: "(string \<times> string list \<times> stdio) option"
  resolve_calls :: "bool list"
  errors :: "message list"
  result :: "bool outcome"

definition playAndAwait :: "os \<Rightarrow> string \<Rightarrow> string \<Rightarrow> play_report" where
  "playAndAwait sys u ttl =
     (let (found, cands) = detectAudioPlayer sys;
          r0 = \<lparr>tried = cands, spawn_call = None, resolve_calls = [], errors = [],
                result = Hangs\<rparr>
      in case found of
           Hangs \<Rightarrow> r0
         | Throws e \<Rightarrow> r0\<lparr>errors := [PlaybackError e], result := Returns False\<rparr>
         | Returns audioPlayer \<Rightarrow>
             if \<not> truthy audioPlayer
             then r0\<lparr>errors := [NoAudioPlayerFound], result := Returns False\<rparr>
             else
               (let (cmd, args, io) = playAndAwait_spawn (str audioPlayer) u;
                    r1 = r0\<lparr>spawn_call := Some (cmd, args, io)\<rparr>
                in case launch sys cmd args io of
                     SpawnThrows e \<Rightarrow> r1\<lparr>errors := [PlaybackError e], result := Returns False\<rparr>
                   | Child evs \<Rightarrow>
                       (let a = await_child evs
                        in r1\<lparr>resolve_calls := resolved a, errors := printed a,
                               result := (case resolved a of [] \<Rightarrow> Hangs | b # _ \<Rightarrow> Returns b)\<rparr>)))"

section \<open>Playing a playlist (handlePlaylistCommand, action play)\<close>

text \<open>
  What the loop does to the outside, in order: lines printed, calls of
  \<^verbatim>\<open>detectAudioPlayer\<close> (with the candidates it spawned), calls of \<^verbatim>\<open>spawn\<close> and calls of
  \<^verbatim>\<open>kill\<close>. A child is named by the loop index that spawned it.

  \<^item> \<open>NowPlaying m n t\<close>: \<^verbatim>\<open>Now playing (m/n): t\<close>
  \<^item> \<open>FailedToResolveStream t msg\<close>: \<^verbatim>\<open>Failed to resolve stream for t: msg\<close>
  \<^item> \<open>NoPlayableUrlSkipping t\<close>: \<^verbatim>\<open>No playable URL for t, skipping.\<close>
  \<^item> \<open>Detect i cands\<close>: the call of \<^verbatim>\<open>detectAudioPlayer()\<close> in iteration \<open>i\<close>
  \<^item> \<open>NoAudioPlayerOnSystem\<close>: \<^verbatim>\<open>No audio player found on system\<close>
  \<^item> \<open>SpawnCall i cmd args io\<close>: the call \<^verbatim>\<open>spawn(cmd, args, {stdio: io})\<close> in iteration \<open>i\<close>
  \<^item> \<open>KillCall i\<close>: \<^verbatim>\<open>currentChild.kill("SIGINT")\<close> on the child of iteration \<open>i\<close>
  \<^item> \<open>PlaybackErrorFor t msg\<close>: \<^verbatim>\<open>Playback error for t: msg\<close>
  \<^item> \<open>StoppingPlayback\<close>: \<^verbatim>\<open>Stopping playback...\<close>
  \<^item> \<open>PlaylistFinishedOrStopped\<close>: \<^verbatim>\<open>Playlist finished or stopped.\<close>
  \<^item> \<open>PlaylistIsEmpty\<close>: \<^verbatim>\<open>Playlist is empty\<close>
\<close>

datatype effect =
    NowPlaying nat nat string
  | FailedToResolveStream string string
  | NoPlayableUrlSkipping string
  | Detect nat "string list"
  | NoAudioPlayerOnSystem
  | SpawnCall nat string "string list" stdio
  | KillCall nat
  | PlaybackErrorFor string string
  | StoppingPlayback
  | PlaylistFinishedOrStopped
  | PlaylistIsEmpty

record session =
  currentChild :: "nat option"
  stopRequested :: bool
  effects :: "effect list"

text \<open>
  The surroundings of one run, per loop index: the operating system, what
  \<^verbatim>\<open>getYouTubeAudioStream\<close> does on an id, and how many SIGINTs arrive during each of the
  three awaits of the iteration.
\<close>

record world =
  os_at :: "nat \<Rightarrow> os"
  stream_at :: "nat \<Rightarrow> string \<Rightarrow> string outcome"
  sigint_in_resolve :: "nat \<Rightarrow> nat"
  sigint_in_detect :: "nat \<Rightarrow> nat"
  sigint_in_play :: "nat \<Rightarrow> nat"

datatype flow = Next | Return | Reject string | Stuck

definition say :: "effect \<Rightarrow> session \<Rightarrow> session" where
  "say e s = s\<lparr>effects := effects s @ [e]\<rparr>"

text \<open>The handler registered with \<^verbatim>\<open>process.on("SIGINT", ...)\<close>.\<close>

definition on_SIGINT :: "session \<Rightarrow> session" where
  "on_SIGINT s =
     (let s1 = s\<lparr>stopRequested := True\<rparr>;
          s2 = (case currentChild s1 of None \<Rightarrow> s1 | Some c \<Rightarrow> say (KillCall c) s1)
      in say StoppingPlayback s2)"

definition deliver :: "nat \<Rightarrow> session \<Rightarrow> session" where
  "deliver k s = (on_SIGINT ^^ k) s"

definition playlist_spawn :: "string \<Rightarrow> string \<Rightarrow> string \<times> string list \<times> stdio" where
  "playlist_spawn player u =
     (let args =
            (if player = ''cvlc'' then [u, ''--intf'', ''dummy'', ''--play-and-exit'']
             else if player = ''mpv'' then [u, ''--no-video'', ''--really-quiet'']
             else if player = ''afplay'' then [u]
             else if player = ''aplay'' then [''-f'', ''cd'']
             else [u])
      in if player = ''aplay'' then (player, args, PipeIgnorePipe) else (player, args, Ignore))"

text \<open>
  The body of the loop in three steps. A step either ends the iteration (\<open>Inl\<close>, with
  \<open>Next\<close> for \<^verbatim>\<open>continue\<close>, \<open>Return\<close> for \<^verbatim>\<open>return\<close>, \<open>Reject\<close> for an exception that leaves
  the function, \<open>Stuck\<close> for an await that never settles) or hands on a value.
\<close>

definition resolve_step ::
  "world \<Rightarrow> nat \<Rightarrow> StoredTrack \<Rightarrow> session \<Rightarrow> (flow \<times> session) + (string option \<times> session)" where
  "resolve_step w i track s =
     (if \<not> truthy (url track) \<and> truthy (id_t track)
      then
        (let s' = deliver (sigint_in_resolve w i) s
         in case stream_at w i (str (id_t track)) of
              Returns u \<Rightarrow> Inr (Some u, s')
            | Throws msg \<Rightarrow> Inl (Next, say (FailedToResolveStream (title track) msg) s')
            | Hangs \<Rightarrow> Inl (Stuck, s'))
      else Inr (url track, s))"

definition detect_step :: "world \<Rightarrow> nat \<Rightarrow> session \<Rightarrow> (flow \<times> session) + (string \<times> session)" where
  "detect_step w i s =
     (let (found, cands) = detectAudioPlayer (os_at w i);
          s' = deliver (sigint_in_detect w i) (say (Detect i cands) s)
      in case found of
           Hangs \<Rightarrow> Inl (Stuck, s')
         | Throws e \<Rightarrow> Inl (Reject e, s')
         | Returns player \<Rightarrow>
             if \<not> truthy player then Inl (Return, say NoAudioPlayerOnSystem s')
             else Inr (str player, s'))"

definition spawn_step ::
  "world \<Rightarrow> nat \<Rightarrow> string \<Rightarrow> string \<Rightarrow> StoredTrack \<Rightarrow> session \<Rightarrow> flow \<times> session" where
  "spawn_step w i player u track s =
     (let (cmd, args, io) = playlist_spawn player u;
          s1 = say (SpawnCall i cmd args io) s
      in case launch (os_at w i) cmd args io of
           SpawnThrows e \<Rightarrow>
             (Next, (say (PlaybackErrorFor (title track) e) s1)\<lparr>currentChild := None\<rparr>)
         | Child evs \<Rightarrow>
             (let s2 = deliver (sigint_in_play w i) (s1\<lparr>currentChild := Some i\<rparr>)
              in if evs = [] then (Stuck, s2) else (Next, s2\<lparr>currentChild := None\<rparr>)))"

definition play_track :: "world \<Rightarrow> nat \<Rightarrow> nat \<Rightarrow> StoredTrack \<Rightarrow> session \<Rightarrow> flow \<times> session" where
  "play_track w n i track s =
     (case resolve_step w i track (say (NowPlaying (i + 1) n (title track)) s) of
        Inl r \<Rightarrow> r
      | Inr (u, s1) \<Rightarrow>
          if \<not> truthy u then (Next, say (NoPlayableUrlSkipping (title track)) s1)
          else
            (case detect_step w i s1 of
               Inl r \<Rightarrow> r
             | Inr (player, s2) \<Rightarrow> spawn_step w i player (str u) track s2))"

text \<open>
  \<^verbatim>\<open>for (let i = startIndex; i < p.tracks.length; i++) { if (stopRequested) break; ... }\<close>
\<close>

function play_from :: "world \<Rightarrow> StoredTrack list \<Rightarrow> nat \<Rightarrow> session \<Rightarrow> flow \<times> session" where
  "play_from w ts i s =
     (if i < length ts
      then
        (if stopRequested s then (Next, s)
         else
           (case play_track w (length ts) i (ts ! i) s of
              (Next, s') \<Rightarrow> play_from w ts (Suc i) s'
            | (Return, s') \<Rightarrow> (Return, s')
            | (Reject e, s') \<Rightarrow> (Reject e, s')
            | (Stuck, s') \<Rightarrow> (Stuck, s')))
      else (Next, s))"
  by pat_completeness auto
termination
  by (relation "measure (\<lambda>(w, ts, i, s). length ts - i)") auto

declare play_from.simps [simp del]

text \<open>\<^verbatim>\<open>let currentChild = null; let stopRequested = false;\<close> and nothing done yet.\<close>

definition fresh :: session where
  "fresh = \<lparr>currentChild = None, stopRequested = False, effects = []\<rparr>"

text \<open>
  The play action of \<^verbatim>\<open>handlePlaylistCommand\<close> on the tracks of the playlist that
  \<^verbatim>\<open>getPlaylist\<close> found: the guard for a playlist without tracks, which prints its line and
  returns, then the two variables, the loop and the closing line. The start index is the
  number read from the prompt minus one, at least 0; an answer that does not parse to a
  number is outside the model, and so are the numbered titles printed before the prompt.
\<close>

definition handlePlaylistCommand_play :: "world \<Rightarrow> StoredTrack list \<Rightarrow> nat \<Rightarrow> flow \<times> session" where
  "handlePlaylistCommand_play w ts startIndex =
     (if ts = [] then (Return, say PlaylistIsEmpty fresh)
      else
        (case play_from w ts startIndex fresh of
           (Next, s) \<Rightarrow> (Return, say PlaylistFinishedOrStopped s)
         | (Return, s) \<Rightarrow> (Return, s)
         | (Reject e, s) \<Rightarrow> (Reject e, s)
         | (Stuck, s) \<Rightarrow> (Stuck, s)))"

section \<open>Continuing a playlist after one track (handleYouTubeStream)\<close>

text \<open>
  What the continuation does, in order: the line that announces the playlist, then for each
  track either the report that its stream did not resolve, the report that it has no
  playable URL, or its call of \<^verbatim>\<open>playAndAwait(url, title)\<close> with what that call did, and last
  the line \<^verbatim>\<open>Playlist finished.\<close> The world is read at the index of the track in its
  playlist.
\<close>

datatype cont_event =
    Continuing string
  | FailedToResolve string string
  | NoPlayableUrl string
  | Played string string play_report
  | PlaylistFinished

definition cont_track :: "world \<Rightarrow> nat \<Rightarrow> StoredTrack \<Rightarrow> flow \<times> cont_event list" where
  "cont_track w i t =
     (case (if \<not> truthy (url t) \<and> truthy (id_t t)
            then (case stream_at w i (str (id_t t)) of
                    Returns u \<Rightarrow> Inr (Some u)
                  | Throws e \<Rightarrow> Inl (Next, [FailedToResolve (title t) e])
                  | Hangs \<Rightarrow> Inl (Stuck, []))
            else Inr (url t)) of
        Inl r \<Rightarrow> r
      | Inr u \<Rightarrow>
          if \<not> truthy u then (Next, [NoPlayableUrl (title t)])
          else
            (let r = playAndAwait (os_at w i) (str u) (title t)
             in case result r of
                  Returns b \<Rightarrow> (Next, [Played (str u) (title t) r])
                | Throws e \<Rightarrow> (Reject e, [Played (str u) (title t) r])
                | Hangs \<Rightarrow> (Stuck, [Played (str u) (title t) r])))"

function cont_from :: "world \<Rightarrow> StoredTrack list \<Rightarrow> nat \<Rightarrow> flow \<times> cont_event list" where
  "cont_from w ts i =
     (if i < length ts
      then
        (case cont_track w i (ts ! i) of
           (Next, evs) \<Rightarrow> (let (f, evs') = cont_from w ts (Suc i) in (f, evs @ evs'))
         | (Return, evs) \<Rightarrow> (Return, evs)
         | (Reject e, evs) \<Rightarrow> (Reject e, evs)
         | (Stuck, evs) \<Rightarrow> (Stuck, evs))
      else (Next, []))"
  by pat_completeness auto
termination
  by (relation "measure (\<lambda>(w, ts, i). length ts - i)") auto

declare cont_from.simps [simp del]

text \<open>
  The \<^verbatim>\<open>try\<close> block after the selected track has played. On a store that did not parse to
  an array, \<^verbatim>\<open>playlists.find\<close> raises a TypeError.
\<close>

definition continuation :: "world \<Rightarrow> disk \<Rightarrow> string \<Rightarrow> flow \<times> cont_event list" where
  "continuation w d selectedId =
     (case listPlaylists d of
        Junk \<Rightarrow> (Reject ''TypeError'', [])
      | Lists playlists \<Rightarrow>
          (case find (\<lambda>pl. list_ex (\<lambda>t. id_t t = Some selectedId) (tracks pl)) playlists of
             None \<Rightarrow> (Next, [])
           | Some containing \<Rightarrow>
               (let idx = findIndex (\<lambda>t. id_t t = Some selectedId) (tracks containing)
                in if idx \<ge> 0 \<and> idx < int (length (tracks containing)) - 1
                   then
                     (case cont_from w (tracks containing) (nat (idx + 1)) of
                        (Next, evs) \<Rightarrow> (Next, Continuing (name containing) # evs @ [PlaylistFinished])
                      | (Return, evs) \<Rightarrow> (Return, Continuing (name containing) # evs)
                      | (Reject e, evs) \<Rightarrow> (Reject e, Continuing (name containing) # evs)
                      | (Stuck, evs) \<Rightarrow> (Stuck, Continuing (name containing) # evs))
                   else (Next, []))))"

text \<open>
  From \<^verbatim>\<open>let played = await playAndAwait(audioUrl, selectedVideo.title)\<close> to
  \<^verbatim>\<open>return played\<close>: what the function returns, the report of the first playback, and the
  events of the continuation. An exception of the first playback reaches the handler of
  stream errors, which returns false; one of the continuation reaches the inner handler,
  which drops it.
\<close>

definition handleYouTubeStream_play ::
  "os \<Rightarrow> world \<Rightarrow> disk \<Rightarrow> string \<Rightarrow> string \<Rightarrow> string \<Rightarrow> bool outcome \<times> play_report \<times> cont_event list" where
  "handleYouTubeStream_play sys w d audioUrl selectedId ttl =
     (let r = playAndAwait sys audioUrl ttl
      in case result r of
           Hangs \<Rightarrow> (Hangs, r, [])
         | Throws e \<Rightarrow> (Returns False, r, [])
         | Returns played \<Rightarrow>
             (case continuation w d selectedId of
                (Stuck, evs) \<Rightarrow> (Hangs, r, evs)
              | (Next, evs) \<Rightarrow> (Returns played, r, evs)
              | (Return, evs) \<Rightarrow> (Returns played, r, evs)
              | (Reject e, evs) \<Rightarrow> (Returns played, r, evs)))"

section \<open>Notions used to state the properties\<close>

text \<open>
  The loop index an effect belongs to, if any; the tests for the line that announces a
  track, for a call of discovery and for a call of spawn; the effects of \<open>k\<close> SIGINTs
  while the child \<open>c\<close> is live; and one iteration run from a fresh session.
\<close>

fun about :: "effect \<Rightarrow> nat option" where
  "about (NowPlaying m n t) = Some (m - 1)"
| "about (Detect i cs) = Some i"
| "about (SpawnCall i c a io) = Some i"
| "about (KillCall i) = Some i"
| "about e = None"

fun is_NowPlaying :: "effect \<Rightarrow> bool" where
  "is_NowPlaying (NowPlaying m n t) = True"
| "is_NowPlaying e = False"

definition sig_effects :: "nat option \<Rightarrow> nat \<Rightarrow> effect list" where
  "sig_effects c k =
     concat (replicate k ((case c of None \<Rightarrow> [] | Some i \<Rightarrow> [KillCall i]) @ [StoppingPlayback]))"


fun is_SpawnCall :: "effect \<Rightarrow> bool" where
  "is_SpawnCall (SpawnCall i c a io) = True"
| "is_SpawnCall e = False"

definition iter :: "world \<Rightarrow> nat \<Rightarrow> nat \<Rightarrow> StoredTrack \<Rightarrow> flow \<times> session" where
  "iter w n i t = play_track w n i t fresh"

section \<open>Example data\<close>

definition disk_empty :: disk where
  "disk_empty = \<lparr>content = Absent, writable = True\<rparr>"

definition pl_first :: Playlist where
  "pl_first = \<lparr>id_p = ''mhi8r1ts'', name = ''road-trip'', tracks = [], createdAt = 1762120000000\<rparr>"

definition pl_second :: Playlist where
  "pl_second = \<lparr>id_p = ''mhi8r1ts'', name = ''chill'', tracks = [], createdAt = 1762120000000\<rparr>"

definition pl_mix1 :: Playlist where
  "pl_mix1 = \<lparr>id_p = ''a1'', name = ''mix'', tracks = [], createdAt = 1\<rparr>"

definition pl_rock :: Playlist where
  "pl_rock = \<lparr>id_p = ''b2'', name = ''rock'', tracks = [], createdAt = 2\<rparr>"

definition pl_mix2 :: Playlist where
  "pl_mix2 = \<lparr>id_p = ''c3'', name = ''mix'', tracks = [], createdAt = 3\<rparr>"

definition disk_mix :: disk where
  "disk_mix = \<lparr>content = Stored [pl_mix1, pl_rock, pl_mix2], writable = True\<rparr>"

definition track_x :: StoredTrack where
  "track_x = \<lparr>id_t = Some ''x'', title = ''X'', url = None, addedAt = 0\<rparr>"

definition os_freebsd_mpv :: os where
  "os_freebsd_mpv =
     \<lparr>platform = ''freebsd'',
      probe = (\<lambda>c. if c = ''cvlc'' then Child [OnError ''spawn cvlc ENOENT'', OnClose (Some (-2))]
                   else Child [OnExit (Some 0), OnClose (Some 0)]),
      launch = (\<lambda>c a io. Child [OnExit (Some 0), OnClose (Some 0)])\<rparr>"

definition os_events :: "child_event list \<Rightarrow> os" where
  "os_events evs =
     \<lparr>platform = ''linux'',
      probe = (\<lambda>c. if c = ''mpv'' then Child [OnClose (Some 0)] else Child [OnError ''ENOENT'']),
      launch = (\<lambda>c a io. Child evs)\<rparr>"

definition os_failing :: os where
  "os_failing = os_events [OnExit (Some 1), OnClose (Some 1), OnError ''late'']"

definition track_a :: StoredTrack where
  "track_a = \<lparr>id_t = Some ''ida'', title = ''A'', url = Some ''http://a'', addedAt = 1\<rparr>"

definition track_b :: StoredTrack where
  "track_b = \<lparr>id_t = Some ''idb'', title = ''B'', url = None, addedAt = 2\<rparr>"

definition track_c :: StoredTrack where
  "track_c = \<lparr>id_t = Some ''idc'', title = ''C'', url = Some ''http://c'', addedAt = 3\<rparr>"

definition os_mpv :: os where
  "os_mpv = os_events [OnExit (Some 0), OnClose (Some 0)]"

text \<open>A world with mpv installed where every stream resolves; one SIGINT arrives while the
  track at index 0 plays.\<close>

definition world_stop :: world where
  "world_stop =
     \<lparr>os_at = (\<lambda>i. os_mpv),
      stream_at = (\<lambda>i v. Returns (''http://'' @ v)),
      sigint_in_resolve = (\<lambda>i. 0),
      sigint_in_detect = (\<lambda>i. 0),
      sigint_in_play = (\<lambda>i. if i = 0 then 1 else 0)\<rparr>"

definition track_d :: StoredTrack where
  "track_d = \<lparr>id_t = None, title = ''D'', url = None, addedAt = 4\<rparr>"

definition road_trip :: "StoredTrack list" where
  "road_trip = [track_a, track_b, track_d, track_c]"

text \<open>A world with mpv installed and no SIGINT, where the stream of \<open>idb\<close> does not resolve.\<close>

definition world_quiet :: world where
  "world_quiet =
     \<lparr>os_at = (\<lambda>i. os_mpv),
      stream_at = (\<lambda>i v. if v = ''idb'' then Throws ''not available'' else Returns (''http://'' @ v)),
      sigint_in_resolve = (\<lambda>i. 0),
      sigint_in_detect = (\<lambda>i. 0),
      sigint_in_play = (\<lambda>i. 0)\<rparr>"

definition road_trip_effects :: "effect list" where
  "road_trip_effects =
     [NowPlaying 1 4 ''A'', Detect 0 [''cvlc'', ''mpv''],
      SpawnCall 0 ''mpv'' [''http://a'', ''--no-video'', ''--really-quiet''] Ignore,
      NowPlaying 2 4 ''B'', FailedToResolveStream ''B'' ''not available'',
      NowPlaying 3 4 ''D'', NoPlayableUrlSkipping ''D'',
      NowPlaying 4 4 ''C'', Detect 3 [''cvlc'', ''mpv''],
      SpawnCall 3 ''mpv'' [''http://c'', ''--no-video'', ''--really-quiet''] Ignore,
      PlaylistFinishedOrStopped]"

text \<open>A playlist with a track whose stream does not resolve, then a track known by its id
  alone whose stream resolves, then a track with neither URL nor id, between two tracks with
  a stored URL; and what playing it in the quiet world does.\<close>

definition track_e :: StoredTrack where
  "track_e = \<lparr>id_t = Some ''ide'', title = ''E'', url = None, addedAt = 5\<rparr>"

definition mixtape :: "StoredTrack list" where
  "mixtape = [track_a, track_b, track_e, track_d, track_c]"

definition mixtape_effects :: "effect list" where
  "mixtape_effects =
     [NowPlaying 1 5 ''A'', Detect 0 [''cvlc'', ''mpv''],
      SpawnCall 0 ''mpv'' [''http://a'', ''--no-video'', ''--really-quiet''] Ignore,
      NowPlaying 2 5 ''B'', FailedToResolveStream ''B'' ''not available'',
      NowPlaying 3 5 ''E'', Detect 2 [''cvlc'', ''mpv''],
      SpawnCall 2 ''mpv'' [''http://ide'', ''--no-video'', ''--really-quiet''] Ignore,
      NowPlaying 4 5 ''D'', NoPlayableUrlSkipping ''D'',
      NowPlaying 5 5 ''C'', Detect 4 [''cvlc'', ''mpv''],
      SpawnCall 4 ''mpv'' [''http://c'', ''--no-video'', ''--really-quiet''] Ignore,
      PlaylistFinishedOrStopped]"




definition os_aplay :: os where
  "os_aplay =
     \<lparr>platform = ''linux'',
      probe = (\<lambda>c. if c = ''aplay'' then Child [OnClose (Some 0)] else Child [OnError ''ENOENT'']),
      launch = (\<lambda>c a io. Child [OnClose (Some 0)])\<rparr>"

definition disk_junk :: disk where
  "disk_junk = \<lparr>content = NotAnArray, writable = True\<rparr>"

definition pl_trip :: Playlist where
  "pl_trip = \<lparr>id_p = ''p2'', name = ''road-trip'', tracks = road_trip, createdAt = 6\<rparr>"

definition disk_trip :: disk where
  "disk_trip = \<lparr>content = Stored [pl_trip], writable = True\<rparr>"

text \<open>A store where two playlists hold the tracks \<open>ida\<close> and \<open>idc\<close>: in the first of them
  \<open>idc\<close> is the last track, in the second it is followed by another track.\<close>

definition pl_mixtape :: Playlist where
  "pl_mixtape = \<lparr>id_p = ''p3'', name = ''mixtape'', tracks = mixtape, createdAt = 7\<rparr>"

definition pl_encore :: Playlist where
  "pl_encore = \<lparr>id_p = ''p4'', name = ''encore'', tracks = [track_c, track_a], createdAt = 8\<rparr>"

definition disk_shelf :: disk where
  "disk_shelf = \<lparr>content = Stored [pl_rock, pl_mixtape, pl_encore], writable = True\<rparr>"

section \<open>Properties of the playlist store\<close>

subsection \<open>Base-36 identifiers\<close>

lemma distinct_digits36: "distinct digits36"
  by (simp add: digits36_def)

lemma length_digits36: "length digits36 = 36"
  by (simp add: digits36_def)

lemma digit36_inj: "a < 36 \<Longrightarrow> b < 36 \<Longrightarrow> digit36 a = digit36 b \<Longrightarrow> a = b"
  unfolding digit36_def
  using distinct_digits36 length_digits36 nth_eq_iff_index_eq by metis

lemma toString36_length: "36 \<le> n \<Longrightarrow> 2 \<le> length (toString36 n)"
proof -
  assume h: "36 \<le> n"
  have "length (toString36 (n div 36)) \<ge> 1"
    by (subst toString36.simps) simp
  with h show ?thesis
    by (subst toString36.simps) simp
qed

lemma toString36_inj: "toString36 n = toString36 m \<Longrightarrow> n = m"
proof (induction n arbitrary: m rule: toString36.induct)
  case (1 n)
  show ?case
  proof (cases "n < 36")
    case small: True
    show ?thesis
    proof (cases "m < 36")
      case True
      with small "1.prems" show ?thesis
        by (simp add: toString36.simps [of n] toString36.simps [of m] digit36_inj)
    next
      case False
      then have "2 \<le> length (toString36 m)" by (simp add: toString36_length)
      moreover have "length (toString36 n) = 1" using small by (simp add: toString36.simps [of n])
      ultimately show ?thesis using "1.prems" by simp
    qed
  next
    case big: False
    show ?thesis
    proof (cases "m < 36")
      case True
      then have "length (toString36 m) = 1" by (simp add: toString36.simps [of m])
      moreover have "2 \<le> length (toString36 n)" using big by (simp add: toString36_length)
      ultimately show ?thesis using "1.prems" by simp
    next
      case False
      with big "1.prems" have eq: "toString36 (n div 36) = toString36 (m div 36)"
        and dg: "digit36 (n mod 36) = digit36 (m mod 36)"
        by (simp_all add: toString36.simps [of n] toString36.simps [of m])
      from "1.IH" [OF big eq] have "n div 36 = m div 36" .
      moreover from dg have "n mod 36 = m mod 36" by (simp add: digit36_inj)
      ultimately show ?thesis by (metis div_mult_mod_eq)
    qed
  qed
qed

lemma toString36_example: "toString36 1762120000000 = ''mhi8r1ts''"
  by (simp add: toString36.simps digit36_def digits36_def)

lemma toString36_example_next: "toString36 1762120000001 = ''mhi8r1tt''"
  by (simp add: toString36.simps digit36_def digits36_def)

text \<open>
  C9, as stated: every pair of playlists created into the store has different ids. It
  fails: the id is the clock reading in base 36 and nothing compares it with the ids
  already stored, so two playlists created while \<^verbatim>\<open>Date.now()\<close> reads the same millisecond
  are different playlists with one id.
\<close>

theorem createPlaylist_same_ms_counterexample:
  "createPlaylist 1762120000000 1762120000000 ''road-trip'' disk_empty
     = Inr (\<lparr>content = Stored [pl_first], writable = True\<rparr>, pl_first)
   \<and> createPlaylist 1762120000000 1762120000000 ''chill'' \<lparr>content = Stored [pl_first], writable = True\<rparr>
     = Inr (\<lparr>content = Stored [pl_first, pl_second], writable = True\<rparr>, pl_second)
   \<and> pl_first \<noteq> pl_second
   \<and> id_p pl_first = id_p pl_second"
  by (simp add: Let_def createPlaylist_def loadPlaylists_def savePlaylists_def disk_empty_def
      pl_first_def pl_second_def toString36_example)

text \<open>
  C9, amended: createPlaylist gives the new playlist the id \<^verbatim>\<open>Date.now().toString(36)\<close> and
  appends it to the stored collection, comparing the id with nothing; any two playlists it
  creates have different ids exactly when the two clock readings differ.
\<close>

theorem createPlaylist_ids_differ_iff_clock_differs:
  assumes "createPlaylist now1 stamp1 nm1 d = Inr (d1, p1)"
    and "createPlaylist now2 stamp2 nm2 d' = Inr (d2, p2)"
  shows "id_p p1 = toString36 now1 \<and> id_p p2 = toString36 now2
     \<and> (\<exists>ls. loadPlaylists d = Lists ls \<and> loadPlaylists d1 = Lists (ls @ [p1]))
     \<and> (\<exists>ls. loadPlaylists d' = Lists ls \<and> loadPlaylists d2 = Lists (ls @ [p2]))
     \<and> (id_p p1 \<noteq> id_p p2 \<longleftrightarrow> now1 \<noteq> now2)"
proof -
  have made: "p = \<lparr>id_p = toString36 now, name = nm, tracks = [], createdAt = stamp\<rparr>
      \<and> (\<exists>ls. loadPlaylists e = Lists ls \<and> loadPlaylists e' = Lists (ls @ [p]))"
    if "createPlaylist now stamp nm e = Inr (e', p)" for now stamp nm e e' p
  proof -
    from that obtain ls where l: "loadPlaylists e = Lists ls"
      and p: "p = \<lparr>id_p = toString36 now, name = nm, tracks = [], createdAt = stamp\<rparr>"
      and e': "e' = e\<lparr>content := Stored (ls @ [p])\<rparr>"
      by (auto simp: createPlaylist_def savePlaylists_def Let_def split: loaded.splits if_splits)
    from e' have "loadPlaylists e' = Lists (ls @ [p])" by (simp add: loadPlaylists_def)
    with l p show ?thesis by blast
  qed
  from made [OF assms(1)] made [OF assms(2)]
  have p1: "id_p p1 = toString36 now1" and p2: "id_p p2 = toString36 now2"
    and s1: "\<exists>ls. loadPlaylists d = Lists ls \<and> loadPlaylists d1 = Lists (ls @ [p1])"
    and s2: "\<exists>ls. loadPlaylists d' = Lists ls \<and> loadPlaylists d2 = Lists (ls @ [p2])"
    by auto
  have "(id_p p1 = id_p p2) = (now1 = now2)"
    using p1 p2 toString36_inj by auto
  with p1 p2 s1 s2 show ?thesis by blast
qed

theorem createPlaylist_ids_differ_iff_clock_differs_witness:
  "createPlaylist 1762120000000 1762120000000 ''road-trip'' disk_empty
     = Inr (\<lparr>content = Stored [pl_first], writable = True\<rparr>, pl_first)
   \<and> createPlaylist 1762120000001 1762120000001 ''chill'' \<lparr>content = Stored [pl_first], writable = True\<rparr>
     = Inr (\<lparr>content = Stored [pl_first, pl_second\<lparr>id_p := ''mhi8r1tt'', createdAt := 1762120000001\<rparr>], writable = True\<rparr>,
            pl_second\<lparr>id_p := ''mhi8r1tt'', createdAt := 1762120000001\<rparr>)
   \<and> id_p pl_first \<noteq> id_p (pl_second\<lparr>id_p := ''mhi8r1tt'', createdAt := 1762120000001\<rparr>)"
proof -
  have a: "createPlaylist 1762120000000 1762120000000 ''road-trip'' disk_empty
     = Inr (\<lparr>content = Stored [pl_first], writable = True\<rparr>, pl_first)"
    by (simp add: Let_def createPlaylist_def loadPlaylists_def savePlaylists_def disk_empty_def
      pl_first_def toString36_example)
  have b: "createPlaylist 1762120000001 1762120000001 ''chill'' \<lparr>content = Stored [pl_first], writable = True\<rparr>
     = Inr (\<lparr>content = Stored [pl_first, pl_second\<lparr>id_p := ''mhi8r1tt'', createdAt := 1762120000001\<rparr>], writable = True\<rparr>,
            pl_second\<lparr>id_p := ''mhi8r1tt'', createdAt := 1762120000001\<rparr>)"
    by (simp add: Let_def createPlaylist_def loadPlaylists_def savePlaylists_def pl_second_def
      toString36_example_next)
  from createPlaylist_ids_differ_iff_clock_differs [OF a b] a b show ?thesis
    by (simp add: toString36_example toString36_example_next)
qed

subsection \<open>First match and every match\<close>

lemma findIndex_first:
  "(\<forall>q\<in>set pre. \<not> P q) \<Longrightarrow> P p \<Longrightarrow> findIndex P (pre @ p # post) = int (length pre)"
  by (induction pre) (auto simp: Let_def)

lemma findIndex_none: "(\<forall>q\<in>set xs. \<not> P q) \<Longrightarrow> findIndex P xs = -1"
  by (induction xs) (auto simp: Let_def)

lemma find_first:
  "(\<forall>q\<in>set pre. \<not> P q) \<Longrightarrow> P p \<Longrightarrow> find P (pre @ p # post) = Some p"
  by (induction pre) auto

lemma filter_prefix_none: "(\<forall>q\<in>set pre. \<not> P q) \<Longrightarrow> filter (\<lambda>q. \<not> P q) pre = pre"
  by (induction pre) auto

lemma not_matches: "(\<not> matches key p) = (id_p p \<noteq> key \<and> name p \<noteq> key)"
  by (simp add: matches_def)

text \<open>
  C10: on a store that loads to \<open>ls\<close> and can be written, deletePlaylist writes back
  \<open>ls\<close> without every playlist whose id or name is the key, the others in their order;
  when nothing matches it writes \<open>ls\<close> back as it is. getPlaylist, addTrackToPlaylist and
  removeTrackFromPlaylist act on the first match only: the playlists after it, matching
  or not, stay as they are.
\<close>

theorem deletePlaylist_removes_every_match:
  assumes "loadPlaylists d = Lists ls" and "writable d"
  shows "deletePlaylist key d = Inr (d\<lparr>content := Stored (filter (\<lambda>p. \<not> matches key p) ls)\<rparr>)
    \<and> (\<forall>p\<in>set (filter (\<lambda>p. \<not> matches key p) ls). id_p p \<noteq> key \<and> name p \<noteq> key)
    \<and> ((\<forall>p\<in>set ls. \<not> matches key p) \<longrightarrow> deletePlaylist key d = Inr (d\<lparr>content := Stored ls\<rparr>))
    \<and> (\<forall>pre p post. ls = pre @ p # post \<and> (\<forall>q\<in>set pre. \<not> matches key q) \<and> matches key p \<longrightarrow>
          getPlaylist key d = Inr (Some p)
        \<and> addTrackToPlaylist stamp key t d
            = Inr (d\<lparr>content := Stored (pre @ p\<lparr>tracks := tracks p @ [t\<lparr>addedAt := stamp\<rparr>]\<rparr> # post)\<rparr>,
                   p\<lparr>tracks := tracks p @ [t\<lparr>addedAt := stamp\<rparr>]\<rparr>)
        \<and> (\<forall>i<length (tracks p). removeTrackFromPlaylist key (int i) d
            = Inr (d\<lparr>content := Stored (pre @ p\<lparr>tracks := splice1 i (tracks p)\<rparr> # post)\<rparr>))
        \<and> deletePlaylist key d
            = Inr (d\<lparr>content := Stored (pre @ filter (\<lambda>q. \<not> matches key q) post)\<rparr>))"
proof -
  have del: "deletePlaylist key d = Inr (d\<lparr>content := Stored (filter (\<lambda>p. \<not> matches key p) ls)\<rparr>)"
    using assms by (simp add: deletePlaylist_def savePlaylists_def not_matches)
  have gone: "\<forall>p\<in>set (filter (\<lambda>p. \<not> matches key p) ls). id_p p \<noteq> key \<and> name p \<noteq> key"
    by (simp add: not_matches)
  have same: "(\<forall>p\<in>set ls. \<not> matches key p) \<longrightarrow> deletePlaylist key d = Inr (d\<lparr>content := Stored ls\<rparr>)"
    using del filter_prefix_none [of ls "matches key"] by simp
  have first: "getPlaylist key d = Inr (Some p)
        \<and> addTrackToPlaylist stamp key t d
            = Inr (d\<lparr>content := Stored (pre @ p\<lparr>tracks := tracks p @ [t\<lparr>addedAt := stamp\<rparr>]\<rparr> # post)\<rparr>,
                   p\<lparr>tracks := tracks p @ [t\<lparr>addedAt := stamp\<rparr>]\<rparr>)
        \<and> (\<forall>i<length (tracks p). removeTrackFromPlaylist key (int i) d
            = Inr (d\<lparr>content := Stored (pre @ p\<lparr>tracks := splice1 i (tracks p)\<rparr> # post)\<rparr>))
        \<and> deletePlaylist key d
            = Inr (d\<lparr>content := Stored (pre @ filter (\<lambda>q. \<not> matches key q) post)\<rparr>)"
    if h: "ls = pre @ p # post" "\<forall>q\<in>set pre. \<not> matches key q" "matches key p" for pre p post
  proof -
    have idx: "findIndex (matches key) ls = int (length pre)"
      using h by (simp add: findIndex_first)
    have g: "getPlaylist key d = Inr (Some p)"
      using assms h by (simp add: getPlaylist_def find_first)
    have a: "addTrackToPlaylist stamp key t d
            = Inr (d\<lparr>content := Stored (pre @ p\<lparr>tracks := tracks p @ [t\<lparr>addedAt := stamp\<rparr>]\<rparr> # post)\<rparr>,
                   p\<lparr>tracks := tracks p @ [t\<lparr>addedAt := stamp\<rparr>]\<rparr>)"
      using assms idx h(1) by (simp add: addTrackToPlaylist_def savePlaylists_def Let_def)
    have r: "\<forall>i<length (tracks p). removeTrackFromPlaylist key (int i) d
            = Inr (d\<lparr>content := Stored (pre @ p\<lparr>tracks := splice1 i (tracks p)\<rparr> # post)\<rparr>)"
      using assms idx h(1) by (simp add: removeTrackFromPlaylist_def savePlaylists_def Let_def)
    have dl: "deletePlaylist key d
            = Inr (d\<lparr>content := Stored (pre @ filter (\<lambda>q. \<not> matches key q) post)\<rparr>)"
      using del h filter_prefix_none [of pre "matches key"] by simp
    from g a r dl show ?thesis by blast
  qed
  from del gone same first show ?thesis by blast
qed

theorem deletePlaylist_removes_every_match_witness:
  "loadPlaylists disk_mix = Lists [pl_mix1, pl_rock, pl_mix2] \<and> writable disk_mix
   \<and> deletePlaylist ''mix'' disk_mix = Inr (disk_mix\<lparr>content := Stored [pl_rock]\<rparr>)
   \<and> deletePlaylist ''jazz'' disk_mix = Inr (disk_mix\<lparr>content := Stored [pl_mix1, pl_rock, pl_mix2]\<rparr>)
   \<and> getPlaylist ''mix'' disk_mix = Inr (Some pl_mix1)
   \<and> addTrackToPlaylist 7 ''mix'' track_x disk_mix
       = Inr (disk_mix\<lparr>content := Stored [pl_mix1\<lparr>tracks := [track_x\<lparr>addedAt := 7\<rparr>]\<rparr>, pl_rock, pl_mix2]\<rparr>,
              pl_mix1\<lparr>tracks := [track_x\<lparr>addedAt := 7\<rparr>]\<rparr>)"
proof -
  have l: "loadPlaylists disk_mix = Lists [pl_mix1, pl_rock, pl_mix2]"
    by (simp add: loadPlaylists_def disk_mix_def)
  have w: "writable disk_mix" by (simp add: disk_mix_def)
  have m: "matches ''mix'' pl_mix1" "\<not> matches ''mix'' pl_rock" "matches ''mix'' pl_mix2"
    "\<not> matches ''jazz'' pl_mix1" "\<not> matches ''jazz'' pl_rock" "\<not> matches ''jazz'' pl_mix2"
    by (simp_all add: matches_def pl_mix1_def pl_rock_def pl_mix2_def)
  have tr: "tracks pl_mix1 = []" by (simp add: pl_mix1_def)
  note A = deletePlaylist_removes_every_match [OF l w, of "''mix''" 7 track_x]
  note B = deletePlaylist_removes_every_match [OF l w, of "''jazz''" 7 track_x]
  from A have a1: "deletePlaylist ''mix'' disk_mix = Inr (disk_mix\<lparr>content := Stored [pl_rock]\<rparr>)"
    using m by simp
  from B have b1: "deletePlaylist ''jazz'' disk_mix = Inr (disk_mix\<lparr>content := Stored [pl_mix1, pl_rock, pl_mix2]\<rparr>)"
    using m by simp
  from A have "[pl_mix1, pl_rock, pl_mix2] = [] @ pl_mix1 # [pl_rock, pl_mix2] \<and> (\<forall>q\<in>set []. \<not> matches ''mix'' q) \<and> matches ''mix'' pl_mix1 \<longrightarrow>
          getPlaylist ''mix'' disk_mix = Inr (Some pl_mix1)
        \<and> addTrackToPlaylist 7 ''mix'' track_x disk_mix
            = Inr (disk_mix\<lparr>content := Stored ([] @ pl_mix1\<lparr>tracks := tracks pl_mix1 @ [track_x\<lparr>addedAt := 7\<rparr>]\<rparr> # [pl_rock, pl_mix2])\<rparr>,
                   pl_mix1\<lparr>tracks := tracks pl_mix1 @ [track_x\<lparr>addedAt := 7\<rparr>]\<rparr>)"
    by blast
  with m tr have "getPlaylist ''mix'' disk_mix = Inr (Some pl_mix1)
        \<and> addTrackToPlaylist 7 ''mix'' track_x disk_mix
            = Inr (disk_mix\<lparr>content := Stored [pl_mix1\<lparr>tracks := [track_x\<lparr>addedAt := 7\<rparr>]\<rparr>, pl_rock, pl_mix2]\<rparr>,
                   pl_mix1\<lparr>tracks := [track_x\<lparr>addedAt := 7\<rparr>]\<rparr>)"
    by simp
  with l w a1 b1 show ?thesis by simp
qed

section \<open>Properties of player discovery and of one playback\<close>

lemma probe_on_settled: "st \<noteq> Pending \<Longrightarrow> fold probe_on evs st = st"
proof (induction evs)
  case Nil
  show ?case by simp
next
  case (Cons ev evs)
  then show ?case by (cases ev) simp_all
qed

lemma probe_promise_error: "probe_promise (Child (OnError e # evs)) = Rejected"
  by (simp add: probe_promise_def probe_on_settled)

lemma probe_promise_close:
  "probe_promise (Child (OnClose c # evs)) = (if c = Some 0 then Resolved else Rejected)"
  by (simp add: probe_promise_def probe_on_settled)

lemma probe_promise_exit: "probe_promise (Child (OnExit c # evs)) = probe_promise (Child evs)"
  by (simp add: probe_promise_def)

lemma detect_loop_no_throw: "fst (detect_loop pr cs) \<noteq> Throws e"
  by (induction cs) (auto split: settled.splits prod.splits)

lemma detect_loop_settled:
  "\<forall>c\<in>set cs. probe_promise (pr c) \<noteq> Pending \<Longrightarrow>
   detect_loop pr cs =
     (Returns (find (\<lambda>c. probe_promise (pr c) = Resolved) cs),
      takeWhile (\<lambda>c. probe_promise (pr c) \<noteq> Resolved) cs
        @ (case find (\<lambda>c. probe_promise (pr c) = Resolved) cs of None \<Rightarrow> [] | Some c \<Rightarrow> [c]))"
proof (induction cs)
  case Nil
  show ?case by simp
next
  case (Cons c cs)
  then show ?case by (cases "probe_promise (pr c)") simp_all
qed

lemma availablePlayers_table:
  "availablePlayers ''darwin'' = [''afplay'', ''cvlc'', ''mpv'']"
  "availablePlayers ''linux'' = [''cvlc'', ''mpv'', ''aplay'']"
  "availablePlayers ''win32'' = [''cvlc'', ''mpv'']"
  by (simp_all add: availablePlayers_def players_def)

lemma availablePlayers_fallback:
  "plat \<noteq> ''darwin'' \<Longrightarrow> plat \<noteq> ''linux'' \<Longrightarrow> plat \<noteq> ''win32'' \<Longrightarrow>
   availablePlayers plat = [''cvlc'', ''mpv'', ''aplay'']"
  by (simp add: availablePlayers_def players_def)

text \<open>
  C8: detectAudioPlayer walks the candidate list of the platform (the Linux list on a
  platform it does not know). When every probe settles it returns the first candidate whose
  probe resolves, having spawned that candidate and the ones before it and none after it;
  it returns null when no probe resolves; it never raises. A probe resolves when \<^verbatim>\<open>close\<close>
  fires with code 0 before any \<^verbatim>\<open>error\<close>; a \<^verbatim>\<open>spawn\<close> that raises, an \<^verbatim>\<open>error\<close> event or a
  \<^verbatim>\<open>close\<close> with another code rejects it, and the loop goes on to the next candidate.
\<close>

theorem detectAudioPlayer_contract:
  assumes "\<forall>c\<in>set (availablePlayers (platform sys)). probe_promise (probe sys c) \<noteq> Pending"
  shows "fst (detectAudioPlayer sys)
           = Returns (find (\<lambda>c. probe_promise (probe sys c) = Resolved) (availablePlayers (platform sys)))
    \<and> snd (detectAudioPlayer sys)
           = takeWhile (\<lambda>c. probe_promise (probe sys c) \<noteq> Resolved) (availablePlayers (platform sys))
             @ (case find (\<lambda>c. probe_promise (probe sys c) = Resolved) (availablePlayers (platform sys)) of
                  None \<Rightarrow> [] | Some c \<Rightarrow> [c])
    \<and> (\<forall>e. fst (detectAudioPlayer sys) \<noteq> Throws e)
    \<and> availablePlayers ''darwin'' = [''afplay'', ''cvlc'', ''mpv'']
    \<and> availablePlayers ''linux'' = [''cvlc'', ''mpv'', ''aplay'']
    \<and> availablePlayers ''win32'' = [''cvlc'', ''mpv'']
    \<and> (platform sys \<notin> {''darwin'', ''linux'', ''win32''}
          \<longrightarrow> availablePlayers (platform sys) = availablePlayers ''linux'')
    \<and> (\<forall>e. probe_promise (SpawnThrows e) = Rejected)
    \<and> (\<forall>e evs. probe_promise (Child (OnError e # evs)) = Rejected)
    \<and> (\<forall>c evs. probe_promise (Child (OnClose c # evs)) = (if c = Some 0 then Resolved else Rejected))
    \<and> (\<forall>c evs. probe_promise (Child (OnExit c # evs)) = probe_promise (Child evs))"
proof -
  have a: "detectAudioPlayer sys =
     (Returns (find (\<lambda>c. probe_promise (probe sys c) = Resolved) (availablePlayers (platform sys))),
      takeWhile (\<lambda>c. probe_promise (probe sys c) \<noteq> Resolved) (availablePlayers (platform sys))
        @ (case find (\<lambda>c. probe_promise (probe sys c) = Resolved) (availablePlayers (platform sys)) of
             None \<Rightarrow> [] | Some c \<Rightarrow> [c]))"
    unfolding detectAudioPlayer_def using assms by (rule detect_loop_settled)
  have b: "\<forall>e. fst (detectAudioPlayer sys) \<noteq> Throws e"
    by (simp add: detectAudioPlayer_def detect_loop_no_throw)
  have c: "platform sys \<notin> {''darwin'', ''linux'', ''win32''}
          \<longrightarrow> availablePlayers (platform sys) = availablePlayers ''linux''"
    by (simp add: availablePlayers_fallback availablePlayers_table)
  have d: "\<forall>e. probe_promise (SpawnThrows e) = Rejected"
    by (simp add: probe_promise_def)
  from a b c d show ?thesis
    by (simp add: availablePlayers_table probe_promise_error probe_promise_close
        probe_promise_exit del: find.simps takeWhile.simps)
qed

theorem detectAudioPlayer_contract_witness:
  "list_all (\<lambda>c. probe_promise (probe os_freebsd_mpv c) \<noteq> Pending)
     (availablePlayers (platform os_freebsd_mpv))
   \<and> detectAudioPlayer os_freebsd_mpv = (Returns (Some ''mpv''), [''cvlc'', ''mpv''])
   \<and> availablePlayers (platform os_freebsd_mpv) = availablePlayers ''linux''"
proof -
  have av: "availablePlayers (platform os_freebsd_mpv) = [''cvlc'', ''mpv'', ''aplay'']"
    by (simp add: os_freebsd_mpv_def availablePlayers_def players_def)
  have pr: "probe_promise (probe os_freebsd_mpv ''cvlc'') = Rejected"
    "probe_promise (probe os_freebsd_mpv ''mpv'') = Resolved"
    "probe_promise (probe os_freebsd_mpv ''aplay'') = Resolved"
    by (simp_all add: os_freebsd_mpv_def probe_promise_def)
  have h: "\<forall>c\<in>set (availablePlayers (platform os_freebsd_mpv)). probe_promise (probe os_freebsd_mpv c) \<noteq> Pending"
    by (simp add: av pr)
  have nd: "platform os_freebsd_mpv \<notin> {''darwin'', ''linux'', ''win32''}"
    by (simp add: os_freebsd_mpv_def)
  note T = detectAudioPlayer_contract [OF h]
  from T have f: "fst (detectAudioPlayer os_freebsd_mpv) = Returns (Some ''mpv'')"
    unfolding av by (simp add: pr)
  from T have g: "snd (detectAudioPlayer os_freebsd_mpv) = [''cvlc'', ''mpv'']"
    unfolding av by (simp add: pr)
  from T nd have k: "availablePlayers (platform os_freebsd_mpv) = availablePlayers ''linux''"
    by blast
  from f g have "detectAudioPlayer os_freebsd_mpv = (Returns (Some ''mpv''), [''cvlc'', ''mpv''])"
    by (simp add: prod_eq_iff)
  moreover from h have "list_all (\<lambda>c. probe_promise (probe os_freebsd_mpv c) \<noteq> Pending)
     (availablePlayers (platform os_freebsd_mpv))"
    by (simp only: list_all_iff)
  ultimately show ?thesis using k by blast
qed

lemma on_event_finished: "finished a \<Longrightarrow> fold on_event evs a = a"
proof (induction evs)
  case Nil
  show ?case by simp
next
  case (Cons ev evs)
  then show ?case by (cases ev) simp_all
qed

lemma await_child_Nil: "resolved (await_child []) = []"
  by (simp add: await_child_def)

lemma await_child_error:
  "await_child (OnError m # evs) = \<lparr>finished = True, resolved = [False], printed = [PlaybackFailed m]\<rparr>"
  by (simp add: await_child_def on_event_finished)

lemma await_child_close:
  "await_child (OnClose c # evs) = \<lparr>finished = True, resolved = [c = Some 0], printed = []\<rparr>"
  by (simp add: await_child_def on_event_finished)

lemma await_child_exit:
  "await_child (OnExit c # evs) = \<lparr>finished = True, resolved = [c = Some 0], printed = []\<rparr>"
  by (simp add: await_child_def on_event_finished)

lemma await_child_once: "length (resolved (await_child evs)) \<le> Suc 0"
proof (cases evs)
  case Nil
  then show ?thesis by (simp add: await_child_Nil)
next
  case (Cons ev rest)
  then show ?thesis
    by (cases ev) (simp_all add: await_child_error await_child_close await_child_exit)
qed

lemma await_child_Cons: "\<exists>b. resolved (await_child (ev # evs)) = [b]"
  by (cases ev) (auto simp: await_child_error await_child_close await_child_exit)

lemma detectAudioPlayer_no_throw: "fst (detectAudioPlayer sys) \<noteq> Throws e"
  by (simp add: detectAudioPlayer_def detect_loop_no_throw)

lemma playAndAwait_found:
  assumes "fst (detectAudioPlayer sys) = Returns (Some p)" and "p \<noteq> []"
  shows "playAndAwait sys u ttl =
     (case launch sys (fst (playAndAwait_spawn p u)) (fst (snd (playAndAwait_spawn p u)))
             (snd (snd (playAndAwait_spawn p u))) of
        SpawnThrows e \<Rightarrow>
          \<lparr>tried = snd (detectAudioPlayer sys), spawn_call = Some (playAndAwait_spawn p u),
           resolve_calls = [], errors = [PlaybackError e], result = Returns False\<rparr>
      | Child evs \<Rightarrow>
          \<lparr>tried = snd (detectAudioPlayer sys), spawn_call = Some (playAndAwait_spawn p u),
           resolve_calls = resolved (await_child evs), errors = printed (await_child evs),
           result = (case resolved (await_child evs) of [] \<Rightarrow> Hangs | b # _ \<Rightarrow> Returns b)\<rparr>)"
  using assms
  by (cases "detectAudioPlayer sys")
     (simp add: playAndAwait_def truthy_def str_def Let_def split: prod.splits spawned.splits)

lemma playAndAwait_none:
  assumes "fst (detectAudioPlayer sys) = Returns None"
  shows "playAndAwait sys u ttl =
          \<lparr>tried = snd (detectAudioPlayer sys), spawn_call = None,
           resolve_calls = [], errors = [NoAudioPlayerFound], result = Returns False\<rparr>"
  using assms
  by (cases "detectAudioPlayer sys") (simp add: playAndAwait_def truthy_def Let_def)

lemma playAndAwait_no_throw: "result (playAndAwait sys u ttl) \<noteq> Throws e"
proof (cases "detectAudioPlayer sys")
  case (Pair found cands)
  show ?thesis
  proof (cases found)
    case (Returns p)
    show ?thesis
    proof (cases "truthy p")
      case True
      then obtain q where q: "p = Some q" "q \<noteq> []"
        by (auto simp: truthy_def split: option.splits)
      show ?thesis
        using Pair Returns q
        by (simp add: playAndAwait_found split: spawned.splits list.splits)
    next
      case False
      with Pair Returns show ?thesis by (simp add: playAndAwait_def Let_def)
    qed
  next
    case (Throws x)
    with Pair show ?thesis by (simp add: playAndAwait_def Let_def)
  next
    case Hangs
    with Pair show ?thesis by (simp add: playAndAwait_def Let_def)
  qed
qed

lemma playAndAwait_once: "length (resolve_calls (playAndAwait sys u ttl)) \<le> 1"
proof (cases "detectAudioPlayer sys")
  case (Pair found cands)
  show ?thesis
  proof (cases found)
    case (Returns p)
    show ?thesis
    proof (cases "truthy p")
      case True
      then obtain q where q: "p = Some q" "q \<noteq> []"
        by (auto simp: truthy_def split: option.splits)
      show ?thesis
        using Pair Returns q
        by (simp add: playAndAwait_found await_child_once split: spawned.splits)
    next
      case False
      with Pair Returns show ?thesis by (simp add: playAndAwait_def Let_def)
    qed
  next
    case (Throws x)
    with Pair show ?thesis by (simp add: playAndAwait_def Let_def)
  next
    case Hangs
    with Pair show ?thesis by (simp add: playAndAwait_def Let_def)
  qed
qed

lemma detect_loop_settles:
  "\<forall>c\<in>set cs. probe_promise (pr c) \<noteq> Pending \<Longrightarrow> \<exists>p. fst (detect_loop pr cs) = Returns p"
  by (simp add: detect_loop_settled)

lemma playAndAwait_returns:
  assumes "\<forall>c\<in>set (availablePlayers (platform sys)). probe_promise (probe sys c) \<noteq> Pending"
    and "\<forall>c a io. launch sys c a io \<noteq> Child []"
  shows "\<exists>b. result (playAndAwait sys u ttl) = Returns b"
proof -
  from assms(1) obtain p where p: "fst (detectAudioPlayer sys) = Returns p"
    unfolding detectAudioPlayer_def using detect_loop_settles by blast
  show ?thesis
  proof (cases "truthy p")
    case True
    then obtain q where q: "p = Some q" "q \<noteq> []"
      by (auto simp: truthy_def split: option.splits)
    let ?l = "launch sys (fst (playAndAwait_spawn q u)) (fst (snd (playAndAwait_spawn q u)))
             (snd (snd (playAndAwait_spawn q u)))"
    show ?thesis
    proof (cases ?l)
      case (SpawnThrows e)
      with p q show ?thesis by (auto simp: playAndAwait_found)
    next
      case (Child evs)
      with assms(2) obtain ev rest where "evs = ev # rest" by (cases evs) auto
      with Child p q await_child_Cons [of ev rest] show ?thesis
        by (auto simp: playAndAwait_found)
    qed
  next
    case False
    with p show ?thesis
      by (cases "detectAudioPlayer sys") (auto simp: playAndAwait_def Let_def)
  qed
qed

lemma playAndAwait_first_event:
  assumes "fst (detectAudioPlayer sys) = Returns (Some p)" and "p \<noteq> []"
    and "(\<lambda>(cmd, args, io). launch sys cmd args io) (playAndAwait_spawn p u) = Child (ev # evs)"
  shows "resolve_calls (playAndAwait sys u ttl)
           = [case ev of OnError m \<Rightarrow> False | OnClose c \<Rightarrow> c = Some 0 | OnExit c \<Rightarrow> c = Some 0]
       \<and> result (playAndAwait sys u ttl)
           = Returns (case ev of OnError m \<Rightarrow> False | OnClose c \<Rightarrow> c = Some 0 | OnExit c \<Rightarrow> c = Some 0)"
  using assms
  by (cases ev)
     (simp_all add: playAndAwait_found await_child_error await_child_close await_child_exit
       split_beta)

lemma playAndAwait_spawn_throws:
  assumes "fst (detectAudioPlayer sys) = Returns (Some p)" and "p \<noteq> []"
    and "(\<lambda>(cmd, args, io). launch sys cmd args io) (playAndAwait_spawn p u) = SpawnThrows e"
  shows "resolve_calls (playAndAwait sys u ttl) = [] \<and> result (playAndAwait sys u ttl) = Returns False"
  using assms by (simp add: playAndAwait_found split_beta)

text \<open>
  C6: playAndAwait never raises, and \<^verbatim>\<open>resolve\<close> is called at most once whatever events
  the child emits and however many. When every probe settles and a spawned child emits at
  least one event, the call returns a boolean. With a player found, the first event decides:
  an \<^verbatim>\<open>error\<close> gives false, a \<^verbatim>\<open>close\<close> or \<^verbatim>\<open>exit\<close> gives true for code 0 and false for any
  other code; later events change nothing. A \<^verbatim>\<open>spawn\<close> that raises and a discovery that
  finds no player give false.
\<close>

theorem playAndAwait_resolves_once:
  "(\<forall>e. result (playAndAwait sys u ttl) \<noteq> Throws e)
   \<and> length (resolve_calls (playAndAwait sys u ttl)) \<le> 1
   \<and> ((\<forall>c\<in>set (availablePlayers (platform sys)). probe_promise (probe sys c) \<noteq> Pending)
        \<and> (\<forall>c a io. launch sys c a io \<noteq> Child [])
       \<longrightarrow> (\<exists>b. result (playAndAwait sys u ttl) = Returns b))
   \<and> (\<forall>p m evs. fst (detectAudioPlayer sys) = Returns (Some p) \<and> p \<noteq> []
        \<and> (\<lambda>(cmd, args, io). launch sys cmd args io) (playAndAwait_spawn p u) = Child (OnError m # evs)
       \<longrightarrow> resolve_calls (playAndAwait sys u ttl) = [False]
         \<and> result (playAndAwait sys u ttl) = Returns False)
   \<and> (\<forall>p c evs. fst (detectAudioPlayer sys) = Returns (Some p) \<and> p \<noteq> []
        \<and> (\<lambda>(cmd, args, io). launch sys cmd args io) (playAndAwait_spawn p u) = Child (OnClose c # evs)
       \<longrightarrow> resolve_calls (playAndAwait sys u ttl) = [c = Some 0]
         \<and> result (playAndAwait sys u ttl) = Returns (c = Some 0))
   \<and> (\<forall>p c evs. fst (detectAudioPlayer sys) = Returns (Some p) \<and> p \<noteq> []
        \<and> (\<lambda>(cmd, args, io). launch sys cmd args io) (playAndAwait_spawn p u) = Child (OnExit c # evs)
       \<longrightarrow> resolve_calls (playAndAwait sys u ttl) = [c = Some 0]
         \<and> result (playAndAwait sys u ttl) = Returns (c = Some 0))
   \<and> (\<forall>p e. fst (detectAudioPlayer sys) = Returns (Some p) \<and> p \<noteq> []
        \<and> (\<lambda>(cmd, args, io). launch sys cmd args io) (playAndAwait_spawn p u) = SpawnThrows e
       \<longrightarrow> resolve_calls (playAndAwait sys u ttl) = []
         \<and> result (playAndAwait sys u ttl) = Returns False)
   \<and> (fst (detectAudioPlayer sys) = Returns None
       \<longrightarrow> result (playAndAwait sys u ttl) = Returns False)"
proof -
  have a: "\<forall>e. result (playAndAwait sys u ttl) \<noteq> Throws e"
    by (simp add: playAndAwait_no_throw)
  have b: "length (resolve_calls (playAndAwait sys u ttl)) \<le> 1"
    using playAndAwait_once [of sys u ttl] by simp
  have c: "(\<forall>c\<in>set (availablePlayers (platform sys)). probe_promise (probe sys c) \<noteq> Pending)
        \<and> (\<forall>c a io. launch sys c a io \<noteq> Child [])
       \<longrightarrow> (\<exists>b. result (playAndAwait sys u ttl) = Returns b)"
    using playAndAwait_returns by blast
  have d1: "\<forall>p m evs. fst (detectAudioPlayer sys) = Returns (Some p) \<and> p \<noteq> []
        \<and> (\<lambda>(cmd, args, io). launch sys cmd args io) (playAndAwait_spawn p u) = Child (OnError m # evs)
       \<longrightarrow> resolve_calls (playAndAwait sys u ttl) = [False]
         \<and> result (playAndAwait sys u ttl) = Returns False"
    using playAndAwait_first_event [where sys = sys and u = u and ttl = ttl] by fastforce
  have d2: "\<forall>p c evs. fst (detectAudioPlayer sys) = Returns (Some p) \<and> p \<noteq> []
        \<and> (\<lambda>(cmd, args, io). launch sys cmd args io) (playAndAwait_spawn p u) = Child (OnClose c # evs)
       \<longrightarrow> resolve_calls (playAndAwait sys u ttl) = [c = Some 0]
         \<and> result (playAndAwait sys u ttl) = Returns (c = Some 0)"
    using playAndAwait_first_event [where sys = sys and u = u and ttl = ttl] by fastforce
  have d3: "\<forall>p c evs. fst (detectAudioPlayer sys) = Returns (Some p) \<and> p \<noteq> []
        \<and> (\<lambda>(cmd, args, io). launch sys cmd args io) (playAndAwait_spawn p u) = Child (OnExit c # evs)
       \<longrightarrow> resolve_calls (playAndAwait sys u ttl) = [c = Some 0]
         \<and> result (playAndAwait sys u ttl) = Returns (c = Some 0)"
    using playAndAwait_first_event [where sys = sys and u = u and ttl = ttl] by fastforce
  have f: "\<forall>p e. fst (detectAudioPlayer sys) = Returns (Some p) \<and> p \<noteq> []
        \<and> (\<lambda>(cmd, args, io). launch sys cmd args io) (playAndAwait_spawn p u) = SpawnThrows e
       \<longrightarrow> resolve_calls (playAndAwait sys u ttl) = []
         \<and> result (playAndAwait sys u ttl) = Returns False"
    using playAndAwait_spawn_throws by blast
  have g: "fst (detectAudioPlayer sys) = Returns None
       \<longrightarrow> result (playAndAwait sys u ttl) = Returns False"
    by (simp add: playAndAwait_none)
  from a b c d1 d2 d3 f g show ?thesis by blast
qed

theorem playAndAwait_resolves_once_witness:
  "list_all (\<lambda>c. probe_promise (probe os_failing c) \<noteq> Pending)
     (availablePlayers (platform os_failing))
   \<and> (\<forall>c a io. launch os_failing c a io \<noteq> Child [])
   \<and> fst (detectAudioPlayer os_failing) = Returns (Some ''mpv'')
   \<and> resolve_calls (playAndAwait os_failing ''u'' ''t'') = [False]
   \<and> result (playAndAwait os_failing ''u'' ''t'') = Returns False"
proof -
  have av: "availablePlayers (platform os_failing) = [''cvlc'', ''mpv'', ''aplay'']"
    by (simp add: os_failing_def os_events_def availablePlayers_def players_def)
  have pr: "probe_promise (probe os_failing ''cvlc'') = Rejected"
    "probe_promise (probe os_failing ''mpv'') = Resolved"
    "probe_promise (probe os_failing ''aplay'') = Rejected"
    by (simp_all add: os_failing_def os_events_def probe_promise_def)
  have h1: "\<forall>c\<in>set (availablePlayers (platform os_failing)). probe_promise (probe os_failing c) \<noteq> Pending"
    by (simp add: av pr)
  have h2: "\<forall>c a io. launch os_failing c a io \<noteq> Child []"
    by (simp add: os_failing_def os_events_def)
  have dt: "fst (detectAudioPlayer os_failing) = Returns (Some ''mpv'')"
    by (simp add: detectAudioPlayer_def av pr)
  have la: "(\<lambda>(cmd, args, io). launch os_failing cmd args io) (playAndAwait_spawn ''mpv'' ''u'')
      = Child (OnExit (Some 1) # [OnClose (Some 1), OnError ''late''])"
    by (simp add: os_failing_def os_events_def split_beta)
  have ne: "''mpv'' \<noteq> []" by simp
  note T = playAndAwait_resolves_once [of os_failing "''u''" "''t''"]
  from T dt la ne have "resolve_calls (playAndAwait os_failing ''u'' ''t'') = [Some (1::int) = Some 0]
         \<and> result (playAndAwait os_failing ''u'' ''t'') = Returns (Some (1::int) = Some 0)"
    by blast
  then have "resolve_calls (playAndAwait os_failing ''u'' ''t'') = [False]
         \<and> result (playAndAwait os_failing ''u'' ''t'') = Returns False"
    by simp
  moreover from T h1 h2 have "\<exists>b. result (playAndAwait os_failing ''u'' ''t'') = Returns b"
    by blast
  moreover from h1 have "list_all (\<lambda>c. probe_promise (probe os_failing c) \<noteq> Pending)
     (availablePlayers (platform os_failing))"
    by (simp only: list_all_iff)
  ultimately show ?thesis using h2 dt by blast
qed

section \<open>Properties of the playlist loop\<close>

subsection \<open>Signals, one iteration, the loop\<close>

lemma on_SIGINT_eq:
  "on_SIGINT s = s\<lparr>stopRequested := True,
      effects := effects s @ (case currentChild s of None \<Rightarrow> [] | Some i \<Rightarrow> [KillCall i]) @ [StoppingPlayback]\<rparr>"
  by (cases "currentChild s") (simp_all add: on_SIGINT_def say_def Let_def)

lemma sig_effects_Suc:
  "sig_effects c (Suc k) = sig_effects c k @ (case c of None \<Rightarrow> [] | Some i \<Rightarrow> [KillCall i]) @ [StoppingPlayback]"
proof -
  have "replicate (Suc k) x = replicate k x @ [x]" for x :: "effect list"
    by (simp add: replicate_append_same)
  then show ?thesis unfolding sig_effects_def by (simp only: concat_append) simp
qed

lemma deliver_eq:
  "deliver k s = s\<lparr>stopRequested := stopRequested s \<or> 0 < k,
                   effects := effects s @ sig_effects (currentChild s) k\<rparr>"
proof (induction k)
  case 0
  show ?case by (simp add: deliver_def sig_effects_def)
next
  case (Suc k)
  have "deliver (Suc k) s = on_SIGINT (deliver k s)" by (simp add: deliver_def)
  also have "\<dots> = s\<lparr>stopRequested := stopRequested s \<or> 0 < Suc k,
                   effects := effects s @ sig_effects (currentChild s) (Suc k)\<rparr>"
    by (simp add: Suc on_SIGINT_eq sig_effects_Suc)
  finally show ?case .
qed

lemma sig_effects_None: "sig_effects None k = replicate k StoppingPlayback"
  by (induction k) (simp_all add: sig_effects_def)

lemma sig_effects_Some: "e \<in> set (sig_effects (Some i) k) \<Longrightarrow> e = StoppingPlayback \<or> e = KillCall i"
  by (induction k) (auto simp: sig_effects_def)

lemma sig_effects_kill: "0 < k \<Longrightarrow> KillCall i \<in> set (sig_effects (Some i) k)"
  by (cases k) (auto simp: sig_effects_def)

lemma sig_effects_0: "sig_effects c 0 = []"
  by (simp add: sig_effects_def)

lemma play_track_frame:
  assumes "currentChild s = None"
  shows "play_track w n i t s =
     (fst (iter w n i t),
      s\<lparr>effects := effects s @ effects (snd (iter w n i t)),
        stopRequested := stopRequested s \<or> stopRequested (snd (iter w n i t)),
        currentChild := currentChild (snd (iter w n i t))\<rparr>)"
  using assms
  unfolding iter_def fresh_def play_track_def resolve_step_def detect_step_def spawn_step_def
  by (simp add: deliver_eq say_def Let_def split_beta
      split: outcome.splits spawned.splits)

lemma iter_cases [case_names resolve_throws resolve_hangs no_url detect_hangs detect_throws
    no_player spawn_throws child]:
  obtains
    (resolve_throws) msg where
      "\<not> truthy (url t)" "truthy (id_t t)" "stream_at w i (str (id_t t)) = Throws msg"
      "iter w n i t = (Next, \<lparr>currentChild = None, stopRequested = 0 < sigint_in_resolve w i,
         effects = NowPlaying (Suc i) n (title t) # replicate (sigint_in_resolve w i) StoppingPlayback
                   @ [FailedToResolveStream (title t) msg]\<rparr>)"
  | (resolve_hangs)
      "\<not> truthy (url t)" "truthy (id_t t)" "stream_at w i (str (id_t t)) = Hangs"
      "iter w n i t = (Stuck, \<lparr>currentChild = None, stopRequested = 0 < sigint_in_resolve w i,
         effects = NowPlaying (Suc i) n (title t) # replicate (sigint_in_resolve w i) StoppingPlayback\<rparr>)"
  | (no_url) k0 where
      "k0 = 0 \<or> k0 = sigint_in_resolve w i"
      "truthy (url t) \<or> \<not> truthy (id_t t) \<or> (\<exists>u. stream_at w i (str (id_t t)) = Returns u)"
      "truthy (id_t t) \<longrightarrow> stream_at w i (str (id_t t)) = Returns []"
      "\<not> truthy (url t)"
      "iter w n i t = (Next, \<lparr>currentChild = None, stopRequested = 0 < k0,
         effects = NowPlaying (Suc i) n (title t) # replicate k0 StoppingPlayback
                   @ [NoPlayableUrlSkipping (title t)]\<rparr>)"
  | (detect_hangs) k0 where
      "k0 = 0 \<or> k0 = sigint_in_resolve w i"
      "truthy (url t) \<or> \<not> truthy (id_t t) \<or> (\<exists>u. stream_at w i (str (id_t t)) = Returns u)"
      "fst (detectAudioPlayer (os_at w i)) = Hangs"
      "iter w n i t = (Stuck, \<lparr>currentChild = None,
         stopRequested = (0 < k0 \<or> 0 < sigint_in_detect w i),
         effects = NowPlaying (Suc i) n (title t) # replicate k0 StoppingPlayback
                   @ Detect i (snd (detectAudioPlayer (os_at w i)))
                   # replicate (sigint_in_detect w i) StoppingPlayback\<rparr>)"
  | (detect_throws) k0 e where
      "k0 = 0 \<or> k0 = sigint_in_resolve w i"
      "truthy (url t) \<or> \<not> truthy (id_t t) \<or> (\<exists>u. stream_at w i (str (id_t t)) = Returns u)"
      "fst (detectAudioPlayer (os_at w i)) = Throws e"
      "iter w n i t = (Reject e, \<lparr>currentChild = None,
         stopRequested = (0 < k0 \<or> 0 < sigint_in_detect w i),
         effects = NowPlaying (Suc i) n (title t) # replicate k0 StoppingPlayback
                   @ Detect i (snd (detectAudioPlayer (os_at w i)))
                   # replicate (sigint_in_detect w i) StoppingPlayback\<rparr>)"
  | (no_player) k0 p where
      "k0 = 0 \<or> k0 = sigint_in_resolve w i"
      "truthy (url t) \<or> \<not> truthy (id_t t) \<or> (\<exists>u. stream_at w i (str (id_t t)) = Returns u)"
      "fst (detectAudioPlayer (os_at w i)) = Returns p" "\<not> truthy p"
      "iter w n i t = (Return, \<lparr>currentChild = None,
         stopRequested = (0 < k0 \<or> 0 < sigint_in_detect w i),
         effects = NowPlaying (Suc i) n (title t) # replicate k0 StoppingPlayback
                   @ Detect i (snd (detectAudioPlayer (os_at w i)))
                   # replicate (sigint_in_detect w i) StoppingPlayback
                   @ [NoAudioPlayerOnSystem]\<rparr>)"
  | (spawn_throws) k0 p u c a io e where
      "k0 = 0 \<or> k0 = sigint_in_resolve w i"
      "truthy (url t) \<or> \<not> truthy (id_t t) \<or> (\<exists>u. stream_at w i (str (id_t t)) = Returns u)"
      "fst (detectAudioPlayer (os_at w i)) = Returns p" "truthy p"
      "playlist_spawn (str p) u = (c, a, io)" "launch (os_at w i) c a io = SpawnThrows e"
      "iter w n i t = (Next, \<lparr>currentChild = None,
         stopRequested = (0 < k0 \<or> 0 < sigint_in_detect w i),
         effects = NowPlaying (Suc i) n (title t) # replicate k0 StoppingPlayback
                   @ Detect i (snd (detectAudioPlayer (os_at w i)))
                   # replicate (sigint_in_detect w i) StoppingPlayback
                   @ [SpawnCall i c a io, PlaybackErrorFor (title t) e]\<rparr>)"
      "url t = Some u \<or> stream_at w i (str (id_t t)) = Returns u"
  | (child) k0 p u c a io evs where
      "k0 = 0 \<or> k0 = sigint_in_resolve w i"
      "truthy (url t) \<or> \<not> truthy (id_t t) \<or> (\<exists>u. stream_at w i (str (id_t t)) = Returns u)"
      "fst (detectAudioPlayer (os_at w i)) = Returns p" "truthy p"
      "playlist_spawn (str p) u = (c, a, io)" "launch (os_at w i) c a io = Child evs"
      "iter w n i t = (if evs = [] then Stuck else Next,
        \<lparr>currentChild = (if evs = [] then Some i else None),
         stopRequested = (0 < k0 \<or> 0 < sigint_in_detect w i \<or> 0 < sigint_in_play w i),
         effects = NowPlaying (Suc i) n (title t) # replicate k0 StoppingPlayback
                   @ Detect i (snd (detectAudioPlayer (os_at w i)))
                   # replicate (sigint_in_detect w i) StoppingPlayback
                   @ SpawnCall i c a io # sig_effects (Some i) (sigint_in_play w i)\<rparr>)"
      "url t = Some u \<or> stream_at w i (str (id_t t)) = Returns u"
proof -
  let ?N = "NowPlaying (Suc i) n (title t)"
  let ?s0 = "say ?N fresh"
  show thesis
  proof (cases "resolve_step w i t ?s0")
    case (Inl r)
    then have need: "\<not> truthy (url t)" "truthy (id_t t)"
      by (auto simp: resolve_step_def split: if_splits)
    show thesis
    proof (cases "stream_at w i (str (id_t t))")
      case (Returns u)
      with Inl need show thesis by (simp add: resolve_step_def Let_def)
    next
      case (Throws msg)
      with need have "iter w n i t = (Next, \<lparr>currentChild = None, stopRequested = 0 < sigint_in_resolve w i,
         effects = ?N # replicate (sigint_in_resolve w i) StoppingPlayback
                   @ [FailedToResolveStream (title t) msg]\<rparr>)"
        by (simp add: iter_def play_track_def resolve_step_def fresh_def say_def deliver_eq
            sig_effects_None)
      with need Throws show thesis by (rule resolve_throws)
    next
      case Hangs
      with need have "iter w n i t = (Stuck, \<lparr>currentChild = None, stopRequested = 0 < sigint_in_resolve w i,
         effects = ?N # replicate (sigint_in_resolve w i) StoppingPlayback\<rparr>)"
        by (simp add: iter_def play_track_def resolve_step_def fresh_def say_def deliver_eq
            sig_effects_None)
      with need Hangs show thesis by (rule resolve_hangs)
    qed
  next
    case (Inr r)
    then obtain u k0 where k0: "k0 = 0 \<or> k0 = sigint_in_resolve w i"
      and ok: "truthy (url t) \<or> \<not> truthy (id_t t) \<or> (\<exists>u. stream_at w i (str (id_t t)) = Returns u)"
      and uu: "\<not> truthy u \<longrightarrow> \<not> truthy (url t) \<and> (truthy (id_t t) \<longrightarrow> stream_at w i (str (id_t t)) = Returns [])"
      and src: "truthy u \<longrightarrow> url t = Some (str u) \<or> stream_at w i (str (id_t t)) = Returns (str u)"
      and route: "resolve_step w i t ?s0 = Inr (u, \<lparr>currentChild = None, stopRequested = 0 < k0,
         effects = ?N # replicate k0 StoppingPlayback\<rparr>)"
      by (auto simp: resolve_step_def fresh_def say_def deliver_eq sig_effects_None Let_def truthy_def
          str_def split: if_splits outcome.splits option.splits)
    have it: "iter w n i t =
      (if \<not> truthy u
       then (Next, say (NoPlayableUrlSkipping (title t)) \<lparr>currentChild = None, stopRequested = 0 < k0,
               effects = ?N # replicate k0 StoppingPlayback\<rparr>)
       else (case detect_step w i \<lparr>currentChild = None, stopRequested = 0 < k0,
               effects = ?N # replicate k0 StoppingPlayback\<rparr> of
               Inl r \<Rightarrow> r
             | Inr (player, s2) \<Rightarrow> spawn_step w i player (str u) t s2))"
      by (simp add: iter_def play_track_def route)
    show thesis
    proof (cases "truthy u")
      case False
      with it have "iter w n i t = (Next, \<lparr>currentChild = None, stopRequested = 0 < k0,
         effects = ?N # replicate k0 StoppingPlayback @ [NoPlayableUrlSkipping (title t)]\<rparr>)"
        by (simp add: say_def)
      with k0 ok uu False show thesis by (intro no_url [of k0]) simp_all
    next
      case True
      note tu = True
      show thesis
      proof (cases "fst (detectAudioPlayer (os_at w i))")
        case Hangs
        with it tu have "iter w n i t = (Stuck, \<lparr>currentChild = None,
         stopRequested = (0 < k0 \<or> 0 < sigint_in_detect w i),
         effects = ?N # replicate k0 StoppingPlayback
                   @ Detect i (snd (detectAudioPlayer (os_at w i)))
                   # replicate (sigint_in_detect w i) StoppingPlayback\<rparr>)"
          by (simp add: detect_step_def say_def deliver_eq sig_effects_None split_beta)
        with k0 ok Hangs show thesis by (rule detect_hangs)
      next
        case (Throws e)
        with it tu have "iter w n i t = (Reject e, \<lparr>currentChild = None,
         stopRequested = (0 < k0 \<or> 0 < sigint_in_detect w i),
         effects = ?N # replicate k0 StoppingPlayback
                   @ Detect i (snd (detectAudioPlayer (os_at w i)))
                   # replicate (sigint_in_detect w i) StoppingPlayback\<rparr>)"
          by (simp add: detect_step_def say_def deliver_eq sig_effects_None split_beta)
        with k0 ok Throws show thesis by (rule detect_throws)
      next
        case (Returns p)
        show thesis
        proof (cases "truthy p")
          case False
          with Returns it tu have "iter w n i t = (Return, \<lparr>currentChild = None,
         stopRequested = (0 < k0 \<or> 0 < sigint_in_detect w i),
         effects = ?N # replicate k0 StoppingPlayback
                   @ Detect i (snd (detectAudioPlayer (os_at w i)))
                   # replicate (sigint_in_detect w i) StoppingPlayback
                   @ [NoAudioPlayerOnSystem]\<rparr>)"
            by (simp add: detect_step_def say_def deliver_eq sig_effects_None split_beta)
          with k0 ok Returns False show thesis by (rule no_player)
        next
          case True
          obtain c a io where ps: "playlist_spawn (str p) (str u) = (c, a, io)"
            by (cases "playlist_spawn (str p) (str u)") auto
          from Returns True it tu have it2: "iter w n i t =
              spawn_step w i (str p) (str u) t \<lparr>currentChild = None,
                stopRequested = (0 < k0 \<or> 0 < sigint_in_detect w i),
                effects = ?N # replicate k0 StoppingPlayback
                   @ Detect i (snd (detectAudioPlayer (os_at w i)))
                   # replicate (sigint_in_detect w i) StoppingPlayback\<rparr>"
            by (simp add: detect_step_def say_def deliver_eq sig_effects_None split_beta)
          show thesis
          proof (cases "launch (os_at w i) c a io")
            case (SpawnThrows e)
            with it2 ps have "iter w n i t = (Next, \<lparr>currentChild = None,
         stopRequested = (0 < k0 \<or> 0 < sigint_in_detect w i),
         effects = ?N # replicate k0 StoppingPlayback
                   @ Detect i (snd (detectAudioPlayer (os_at w i)))
                   # replicate (sigint_in_detect w i) StoppingPlayback
                   @ [SpawnCall i c a io, PlaybackErrorFor (title t) e]\<rparr>)"
              by (simp add: spawn_step_def say_def)
            moreover from src tu have "url t = Some (str u) \<or> stream_at w i (str (id_t t)) = Returns (str u)"
              by simp
            ultimately show thesis using k0 ok Returns True ps SpawnThrows
              by (intro spawn_throws [of k0 p "str u" c a io e]) simp_all
          next
            case (Child evs)
            with it2 ps have "iter w n i t = (if evs = [] then Stuck else Next,
        \<lparr>currentChild = (if evs = [] then Some i else None),
         stopRequested = (0 < k0 \<or> 0 < sigint_in_detect w i \<or> 0 < sigint_in_play w i),
         effects = ?N # replicate k0 StoppingPlayback
                   @ Detect i (snd (detectAudioPlayer (os_at w i)))
                   # replicate (sigint_in_detect w i) StoppingPlayback
                   @ SpawnCall i c a io # sig_effects (Some i) (sigint_in_play w i)\<rparr>)"
              by (simp add: spawn_step_def say_def deliver_eq)
            moreover from src tu have "url t = Some (str u) \<or> stream_at w i (str (id_t t)) = Returns (str u)"
              by simp
            ultimately show thesis using k0 ok Returns True ps Child
              by (intro child [of k0 p "str u" c a io evs]) simp_all
          qed
        qed
      qed
    qed
  qed
qed

lemma iter_Next_child: "fst (iter w n i t) = Next \<Longrightarrow> currentChild (snd (iter w n i t)) = None"
  by (cases rule: iter_cases [of t w i n]) (simp_all split: if_splits)

lemma play_from_step:
  assumes "currentChild s = None" and "i < length ts" and "\<not> stopRequested s"
  shows "play_from w ts i s =
     (if fst (iter w (length ts) i (ts ! i)) = Next
      then play_from w ts (Suc i)
             (s\<lparr>effects := effects s @ effects (snd (iter w (length ts) i (ts ! i))),
                stopRequested := stopRequested (snd (iter w (length ts) i (ts ! i))),
                currentChild := None\<rparr>)
      else (fst (iter w (length ts) i (ts ! i)),
            s\<lparr>effects := effects s @ effects (snd (iter w (length ts) i (ts ! i))),
              stopRequested := stopRequested (snd (iter w (length ts) i (ts ! i))),
              currentChild := currentChild (snd (iter w (length ts) i (ts ! i)))\<rparr>))"
  using assms
  by (subst play_from.simps)
     (simp add: play_track_frame iter_Next_child split: flow.splits)

lemma play_from_done: "\<not> i < length ts \<or> stopRequested s \<Longrightarrow> play_from w ts i s = (Next, s)"
  by (subst play_from.simps) auto

lemma play_from_visits:
  assumes "currentChild s = None"
  shows "\<exists>m. i \<le> m \<and> (m \<le> length ts \<or> m = i)
     \<and> effects (snd (play_from w ts i s))
         = effects s @ concat (map (\<lambda>j. effects (snd (iter w (length ts) j (ts ! j)))) [i..<m])
     \<and> (\<forall>j. i \<le> j \<and> Suc j < m \<longrightarrow>
           fst (iter w (length ts) j (ts ! j)) = Next
           \<and> \<not> stopRequested (snd (iter w (length ts) j (ts ! j))))
     \<and> stopRequested (snd (play_from w ts i s))
         = (stopRequested s \<or> (i < m \<and> stopRequested (snd (iter w (length ts) (m - 1) (ts ! (m - 1))))))
     \<and> (i < m \<longrightarrow> \<not> stopRequested s
           \<and> fst (play_from w ts i s) = fst (iter w (length ts) (m - 1) (ts ! (m - 1))))
     \<and> (i = m \<longrightarrow> play_from w ts i s = (Next, s))
     \<and> (fst (play_from w ts i s) = Next \<and> \<not> stopRequested (snd (play_from w ts i s))
           \<longrightarrow> length ts \<le> m)"
  using assms
proof (induction w ts i s rule: play_from.induct)
  case (1 w ts i s)
  let ?F = "\<lambda>j. fst (iter w (length ts) j (ts ! j))"
  let ?S = "\<lambda>j. snd (iter w (length ts) j (ts ! j))"
  show ?case
  proof (cases "\<not> i < length ts \<or> stopRequested s")
    case True
    then have "play_from w ts i s = (Next, s)" by (rule play_from_done)
    with True show ?thesis by (intro exI [of _ i]) auto
  next
    case False
    then have lt: "i < length ts" and ns: "\<not> stopRequested s" by auto
    note st = play_from_step [OF "1.prems" lt ns, of w]
    show ?thesis
    proof (cases "?F i = Next")
      case stop: False
      with st have r: "play_from w ts i s = (?F i,
            s\<lparr>effects := effects s @ effects (?S i), stopRequested := stopRequested (?S i),
              currentChild := currentChild (?S i)\<rparr>)"
        by simp
      show ?thesis
        using lt ns stop by (intro exI [of _ "Suc i"]) (auto simp: r)
    next
      case go: True
      define s1 where "s1 = s\<lparr>effects := effects s @ effects (?S i),
                stopRequested := stopRequested (?S i), currentChild := None\<rparr>"
      from st go have r: "play_from w ts i s = play_from w ts (Suc i) s1"
        by (simp add: s1_def)
      have pt: "play_track w (length ts) i (ts ! i) s = (Next, s1)"
        using go by (simp add: play_track_frame [OF "1.prems"] s1_def ns iter_Next_child)
      have c1: "currentChild s1 = None" by (simp add: s1_def)
      from "1.IH" [OF lt ns pt [symmetric] refl c1]
      obtain m where m: "Suc i \<le> m" "m \<le> length ts \<or> m = Suc i"
        and e: "effects (snd (play_from w ts (Suc i) s1))
                 = effects s1 @ concat (map (\<lambda>j. effects (?S j)) [Suc i..<m])"
        and v: "\<forall>j. Suc i \<le> j \<and> Suc j < m \<longrightarrow> ?F j = Next \<and> \<not> stopRequested (?S j)"
        and sr: "stopRequested (snd (play_from w ts (Suc i) s1))
                 = (stopRequested s1 \<or> (Suc i < m \<and> stopRequested (?S (m - 1))))"
        and la: "Suc i < m \<longrightarrow> \<not> stopRequested s1
                 \<and> fst (play_from w ts (Suc i) s1) = ?F (m - 1)"
        and em: "Suc i = m \<longrightarrow> play_from w ts (Suc i) s1 = (Next, s1)"
        and fin: "fst (play_from w ts (Suc i) s1) = Next
                  \<and> \<not> stopRequested (snd (play_from w ts (Suc i) s1)) \<longrightarrow> length ts \<le> m"
        by blast
      have s1s: "stopRequested s1 = stopRequested (?S i)" "effects s1 = effects s @ effects (?S i)"
        by (simp_all add: s1_def)
      have up: "[i..<m] = i # [Suc i..<m]" using m(1) by (simp add: upt_conv_Cons)
      show ?thesis
      proof (intro exI [of _ m] conjI)
        show "i \<le> m" using m(1) by simp
        show "m \<le> length ts \<or> m = i" using m(2) lt by auto
        show "effects (snd (play_from w ts i s))
               = effects s @ concat (map (\<lambda>j. effects (?S j)) [i..<m])"
          by (simp add: r e s1s up)
        show "\<forall>j. i \<le> j \<and> Suc j < m \<longrightarrow> ?F j = Next \<and> \<not> stopRequested (?S j)"
        proof (intro allI impI)
          fix j assume j: "i \<le> j \<and> Suc j < m"
          show "?F j = Next \<and> \<not> stopRequested (?S j)"
          proof (cases "j = i")
            case True
            with j la s1s go show ?thesis by simp
          next
            case False
            with j v show ?thesis by simp
          qed
        qed
        show "stopRequested (snd (play_from w ts i s))
               = (stopRequested s \<or> (i < m \<and> stopRequested (?S (m - 1))))"
        proof (cases "Suc i = m")
          case True
          with em r s1s ns m(1) show ?thesis by auto
        next
          case False
          with m(1) have "Suc i < m" by simp
          with la sr r s1s ns show ?thesis by auto
        qed
        show "i < m \<longrightarrow> \<not> stopRequested s \<and> fst (play_from w ts i s) = ?F (m - 1)"
        proof (cases "Suc i = m")
          case True
          with em r go ns show ?thesis by auto
        next
          case False
          with m(1) have "Suc i < m" by simp
          with la r ns show ?thesis by auto
        qed
        show "i = m \<longrightarrow> play_from w ts i s = (Next, s)" using m(1) by simp
        show "fst (play_from w ts i s) = Next \<and> \<not> stopRequested (snd (play_from w ts i s))
               \<longrightarrow> length ts \<le> m"
          using fin r by simp
      qed
    qed
  qed
qed

lemma iter_about:
  "e \<in> set (effects (snd (iter w n i t))) \<Longrightarrow> about e = None \<or> about e = Some i"
  by (cases rule: iter_cases [of t w i n]) (auto dest: sig_effects_Some split: if_splits)

lemma sig_effects_Some_eq:
  "sig_effects (Some i) k = concat (replicate k [KillCall i, StoppingPlayback])"
  by (simp add: sig_effects_def)

lemma iter_playing_stopped:
  assumes "SpawnCall j c a io \<in> set (effects (snd (iter w n i t)))"
    and "launch (os_at w i) c a io = Child evs"
    and "0 < sigint_in_play w i"
  shows "stopRequested (snd (iter w n i t))
     \<and> fst (iter w n i t) = (if evs = [] then Stuck else Next)
     \<and> (\<exists>pre. effects (snd (iter w n i t))
            = pre @ SpawnCall i c a io # sig_effects (Some i) (sigint_in_play w i))"
  using assms
proof (cases rule: iter_cases [of t w i n])
  case (child k0 p u c' a' io' evs')
  from assms(1) child(7) have "c' = c \<and> a' = a \<and> io' = io"
    by (auto dest: sig_effects_Some)
  with child assms(2) have ev: "evs' = evs" by simp
  have "effects (snd (iter w n i t))
      = (NowPlaying (Suc i) n (title t) # replicate k0 StoppingPlayback
                   @ Detect i (snd (detectAudioPlayer (os_at w i)))
                   # replicate (sigint_in_detect w i) StoppingPlayback)
        @ SpawnCall i c a io # sig_effects (Some i) (sigint_in_play w i)"
    using child(7) \<open>c' = c \<and> a' = a \<and> io' = io\<close> by simp
  then have "\<exists>pre. effects (snd (iter w n i t))
            = pre @ SpawnCall i c a io # sig_effects (Some i) (sigint_in_play w i)" by blast
  with child(7) ev assms(3) show ?thesis by simp
qed (auto dest: sig_effects_Some)

text \<open>The run of the loop from a fresh session, as handlePlaylistCommand_play sees it.\<close>

lemma handlePlaylistCommand_play_eq:
  "handlePlaylistCommand_play w ts start =
     (if ts = [] then (Return, say PlaylistIsEmpty fresh)
      else if fst (play_from w ts start fresh) = Next
      then (Return, say PlaylistFinishedOrStopped (snd (play_from w ts start fresh)))
      else play_from w ts start fresh)"
  by (cases "play_from w ts start fresh"; cases "fst (play_from w ts start fresh)")
     (auto simp: handlePlaylistCommand_play_def)

lemma fresh_simps [simp]:
  "currentChild fresh = None" "stopRequested fresh = False" "effects fresh = []"
  by (simp_all add: fresh_def)

lemma in_concat_upt:
  "e \<in> set (concat (map f [i..<m])) \<longleftrightarrow> (\<exists>j. i \<le> j \<and> j < m \<and> e \<in> set (f j))"
  by auto

text \<open>
  C2: SIGINTs reach the handler at an await. Suppose the child of track \<open>k\<close> was spawned and at
  least one SIGINT arrives while the loop awaits it. Then the handler has set
  \<^verbatim>\<open>stopRequested\<close> and called \<^verbatim>\<open>kill\<close> on that child, once per signal and right after the
  spawn; nothing that belongs to a later track happens (no announcement, no discovery, no
  spawn); and the run ends with the closing line once the child emits an event, or stays in
  the await when it never does. The handler itself, entered with a live child, always does
  both: it sets the flag and calls \<^verbatim>\<open>kill\<close>.
\<close>

theorem stop_is_two_sided:
  assumes run: "handlePlaylistCommand_play w ts start = (fl, s')"
    and playing: "SpawnCall k c a io \<in> set (effects s')" "launch (os_at w k) c a io = Child evs"
    and sig: "0 < sigint_in_play w k"
  shows "KillCall k \<in> set (effects s') \<and> stopRequested s'
    \<and> (\<forall>e\<in>set (effects s'). \<forall>j. about e = Some j \<longrightarrow> j \<le> k)
    \<and> (\<exists>pre. effects s' = pre @ SpawnCall k c a io
               # concat (replicate (sigint_in_play w k) [KillCall k, StoppingPlayback])
               @ (if evs = [] then [] else [PlaylistFinishedOrStopped]))
    \<and> fl = (if evs = [] then Stuck else Return)
    \<and> (\<forall>s ch. currentChild s = Some ch \<longrightarrow>
          stopRequested (on_SIGINT s)
          \<and> effects (on_SIGINT s) = effects s @ [KillCall ch, StoppingPlayback])"
proof -
  let ?F = "\<lambda>j. fst (iter w (length ts) j (ts ! j))"
  let ?S = "\<lambda>j. snd (iter w (length ts) j (ts ! j))"
  let ?L = "play_from w ts start fresh"
  from play_from_visits [of fresh start ts w]
  obtain m where m: "start \<le> m"
    and e: "effects (snd ?L) = concat (map (\<lambda>j. effects (?S j)) [start..<m])"
    and v: "\<forall>j. start \<le> j \<and> Suc j < m \<longrightarrow> ?F j = Next \<and> \<not> stopRequested (?S j)"
    and sr: "stopRequested (snd ?L) = (start < m \<and> stopRequested (?S (m - 1)))"
    and la: "start < m \<longrightarrow> fst ?L = ?F (m - 1)"
    by auto
  have ne: "ts \<noteq> []"
  proof
    assume "ts = []"
    with run have "effects s' = [PlaylistIsEmpty]"
      by (auto simp: handlePlaylistCommand_play_eq say_def)
    with playing(1) show False by simp
  qed
  have es: "effects s' = effects (snd ?L)
            @ (if fst ?L = Next then [PlaylistFinishedOrStopped] else [])"
    and ss: "stopRequested s' = stopRequested (snd ?L)"
    and fs: "fl = (if fst ?L = Next then Return else fst ?L)"
    using run ne by (auto simp: handlePlaylistCommand_play_eq say_def split: if_splits)
  from playing(1) es have "SpawnCall k c a io \<in> set (effects (snd ?L))"
    by (auto split: if_splits)
  then have "SpawnCall k c a io \<in> set (concat (map (\<lambda>j. effects (?S j)) [start..<m]))"
    using e by simp
  then obtain j where j: "start \<le> j" "j < m" "SpawnCall k c a io \<in> set (effects (?S j))"
    unfolding in_concat_upt by blast
  from iter_about [OF j(3)] have jk: "j = k" by simp
  from iter_playing_stopped [OF j(3) [unfolded jk] playing(2) sig]
  obtain pre where st: "stopRequested (?S k)" and fk: "?F k = (if evs = [] then Stuck else Next)"
    and ek: "effects (?S k) = pre @ SpawnCall k c a io # sig_effects (Some k) (sigint_in_play w k)"
    by blast
  have mk: "m = Suc k"
  proof (rule ccontr)
    assume "m \<noteq> Suc k"
    with j jk have "Suc k < m" by simp
    with v j(1) jk st show False by blast
  qed
  have up: "[start..<m] = [start..<k] @ [k]" using mk j(1) jk by simp
  from la mk j jk fk have fL: "fst ?L = (if evs = [] then Stuck else Next)" by simp
  have eff: "effects s' = (concat (map (\<lambda>j. effects (?S j)) [start..<k]) @ pre)
               @ SpawnCall k c a io
               # concat (replicate (sigint_in_play w k) [KillCall k, StoppingPlayback])
               @ (if evs = [] then [] else [PlaylistFinishedOrStopped])"
    using es e up ek fL by (simp add: sig_effects_Some_eq)
  have kill: "KillCall k \<in> set (effects s')"
    using eff sig sig_effects_kill [OF sig, of k] by (simp add: sig_effects_Some_eq)
  have stop: "stopRequested s'" using ss sr mk j jk st by simp
  have bound: "\<forall>e\<in>set (effects s'). \<forall>i. about e = Some i \<longrightarrow> i \<le> k"
  proof (intro ballI allI impI)
    fix x i assume x: "x \<in> set (effects s')" and ab: "about x = Some i"
    from x es ab have "x \<in> set (effects (snd ?L))" by (auto split: if_splits)
    then have "x \<in> set (concat (map (\<lambda>j. effects (?S j)) [start..<m]))"
      using e by simp
    then obtain j' where "j' < m" and j'2: "x \<in> set (effects (?S j'))"
      unfolding in_concat_upt by blast
    with mk have j': "j' < Suc k" "x \<in> set (effects (?S j'))" by simp_all
    from iter_about [OF j'(2)] ab have "i = j'" by simp
    with j'(1) show "i \<le> k" by simp
  qed
  have handler: "\<forall>s ch. currentChild s = Some ch \<longrightarrow>
          stopRequested (on_SIGINT s)
          \<and> effects (on_SIGINT s) = effects s @ [KillCall ch, StoppingPlayback]"
    by (simp add: on_SIGINT_eq)
  from eff have "\<exists>pre. effects s' = pre @ SpawnCall k c a io
               # concat (replicate (sigint_in_play w k) [KillCall k, StoppingPlayback])
               @ (if evs = [] then [] else [PlaylistFinishedOrStopped])" by blast
  moreover have "fl = (if evs = [] then Stuck else Return)" using fs fL by simp
  ultimately show ?thesis using kill stop bound handler by blast
qed

lemma detect_os_events:
  "detectAudioPlayer (os_events evs) = (Returns (Some ''mpv''), [''cvlc'', ''mpv''])"
  by (simp add: detectAudioPlayer_def os_events_def availablePlayers_def players_def
      probe_promise_def)

lemma launch_os_events: "launch (os_events evs) c a io = Child evs"
  by (simp add: os_events_def)

lemmas run_simps =
  handlePlaylistCommand_play_def play_from.simps play_track_def resolve_step_def
  detect_step_def spawn_step_def playlist_spawn_def deliver_def on_SIGINT_def say_def
  fresh_def detect_os_events launch_os_events truthy_def str_def Let_def

lemma run_world_stop:
  "handlePlaylistCommand_play world_stop [track_a, track_c] 0 =
     (Return, \<lparr>currentChild = None, stopRequested = True,
        effects = [NowPlaying 1 2 ''A'', Detect 0 [''cvlc'', ''mpv''],
                   SpawnCall 0 ''mpv'' [''http://a'', ''--no-video'', ''--really-quiet''] Ignore,
                   KillCall 0, StoppingPlayback, PlaylistFinishedOrStopped]\<rparr>)"
  by (simp add: run_simps world_stop_def os_mpv_def track_a_def track_c_def)

theorem stop_is_two_sided_witness:
  "handlePlaylistCommand_play world_stop [track_a, track_c] 0 =
     (Return, \<lparr>currentChild = None, stopRequested = True,
        effects = [NowPlaying 1 2 ''A'', Detect 0 [''cvlc'', ''mpv''],
                   SpawnCall 0 ''mpv'' [''http://a'', ''--no-video'', ''--really-quiet''] Ignore,
                   KillCall 0, StoppingPlayback, PlaylistFinishedOrStopped]\<rparr>)
   \<and> launch (os_at world_stop 0) ''mpv'' [''http://a'', ''--no-video'', ''--really-quiet''] Ignore
       = Child [OnExit (Some 0), OnClose (Some 0)]
   \<and> 0 < sigint_in_play world_stop 0
   \<and> KillCall 0 \<in> set [NowPlaying 1 2 ''A'', Detect 0 [''cvlc'', ''mpv''],
                   SpawnCall 0 ''mpv'' [''http://a'', ''--no-video'', ''--really-quiet''] Ignore,
                   KillCall 0, StoppingPlayback, PlaylistFinishedOrStopped]
   \<and> NowPlaying 2 2 ''C'' \<notin> set (effects (snd (handlePlaylistCommand_play world_stop [track_a, track_c] 0)))"
proof -
  let ?eff = "[NowPlaying 1 2 ''A'', Detect 0 [''cvlc'', ''mpv''],
                   SpawnCall 0 ''mpv'' [''http://a'', ''--no-video'', ''--really-quiet''] Ignore,
                   KillCall 0, StoppingPlayback, PlaylistFinishedOrStopped]"
  let ?s = "\<lparr>currentChild = None, stopRequested = True, effects = ?eff\<rparr>"
  have sp: "SpawnCall 0 ''mpv'' [''http://a'', ''--no-video'', ''--really-quiet''] Ignore
              \<in> set (effects ?s)" by simp
  have la: "launch (os_at world_stop 0) ''mpv'' [''http://a'', ''--no-video'', ''--really-quiet''] Ignore
       = Child [OnExit (Some 0), OnClose (Some 0)]"
    by (simp add: world_stop_def os_mpv_def launch_os_events)
  have sg: "0 < sigint_in_play world_stop 0" by (simp add: world_stop_def)
  from stop_is_two_sided [OF run_world_stop sp la sg]
  have k: "KillCall 0 \<in> set (effects ?s)"
    and b: "\<forall>e\<in>set (effects ?s). \<forall>j. about e = Some j \<longrightarrow> j \<le> 0"
    by blast+
  have "NowPlaying 2 2 ''C'' \<notin> set (effects ?s)"
  proof
    assume "NowPlaying 2 2 ''C'' \<in> set (effects ?s)"
    with b have "\<forall>j. about (NowPlaying 2 2 ''C'') = Some j \<longrightarrow> j \<le> 0" by blast
    then show False by simp
  qed
  with k run_world_stop la sg show ?thesis by simp
qed

subsection \<open>Tracks that cannot be played\<close>

lemma filter_sig_effects: "filter is_NowPlaying (sig_effects c k) = []"
  by (induction k) (auto simp: sig_effects_def split: option.splits)

lemma filter_replicate_stop: "filter is_NowPlaying (replicate k StoppingPlayback) = []"
  by (induction k) auto

lemma iter_announces_once:
  "filter is_NowPlaying (effects (snd (iter w n i t))) = [NowPlaying (Suc i) n (title t)]"
  by (cases rule: iter_cases [of t w i n])
     (simp_all add: filter_sig_effects filter_replicate_stop)

lemma iter_head: "NowPlaying (Suc i) n (title t) \<in> set (effects (snd (iter w n i t)))"
  by (cases rule: iter_cases [of t w i n]) simp_all

lemma iter_resolve_fails:
  assumes "\<not> truthy (url t)" "truthy (id_t t)" "stream_at w i (str (id_t t)) = Throws msg"
  shows "iter w n i t = (Next, \<lparr>currentChild = None, stopRequested = 0 < sigint_in_resolve w i,
         effects = NowPlaying (Suc i) n (title t) # replicate (sigint_in_resolve w i) StoppingPlayback
                   @ [FailedToResolveStream (title t) msg]\<rparr>)"
  using assms by (cases rule: iter_cases [of t w i n]) simp_all

lemma iter_unplayable:
  assumes "\<not> truthy (url t)" "\<not> truthy (id_t t)"
  shows "iter w n i t = (Next, \<lparr>currentChild = None, stopRequested = False,
         effects = [NowPlaying (Suc i) n (title t), NoPlayableUrlSkipping (title t)]\<rparr>)"
  using assms
  by (simp add: iter_def play_track_def resolve_step_def say_def fresh_def)

lemma iter_quiet:
  assumes "sigint_in_resolve w i = 0" "sigint_in_detect w i = 0" "sigint_in_play w i = 0"
    and "fst (detectAudioPlayer (os_at w i)) = Returns (Some p)" "p \<noteq> []"
    and "\<forall>c a io. launch (os_at w i) c a io \<noteq> Child []"
    and "\<forall>v. stream_at w i v \<noteq> Hangs"
  shows "fst (iter w n i t) = Next \<and> \<not> stopRequested (snd (iter w n i t))"
  using assms
  by (cases rule: iter_cases [of t w i n]) (auto simp: truthy_def)

text \<open>Where the loop stops, seen from an iteration that does not stop it.\<close>

lemma visits_next:
  assumes m: "start \<le> m"
    and sr: "stopRequested (snd (play_from w ts start fresh))
              = (start < m \<and> stopRequested (snd (iter w (length ts) (m - 1) (ts ! (m - 1)))))"
    and la: "start < m \<longrightarrow> fst (play_from w ts start fresh)
              = fst (iter w (length ts) (m - 1) (ts ! (m - 1)))"
    and fin: "fst (play_from w ts start fresh) = Next
              \<and> \<not> stopRequested (snd (play_from w ts start fresh)) \<longrightarrow> length ts \<le> m"
    and k: "start \<le> k" "k < m" "Suc k < length ts"
    and go: "fst (iter w (length ts) k (ts ! k)) = Next"
            "\<not> stopRequested (snd (iter w (length ts) k (ts ! k)))"
  shows "Suc k < m"
proof (rule ccontr)
  assume "\<not> Suc k < m"
  with k have mk: "m = Suc k" by simp
  with sr la go k have "fst (play_from w ts start fresh) = Next"
    "\<not> stopRequested (snd (play_from w ts start fresh))" by auto
  with fin mk k show False by simp
qed

lemma run_shape:
  obtains m where "start \<le> m" "m \<le> length ts \<or> m = start"
    "effects (snd (handlePlaylistCommand_play w ts start))
       = concat (map (\<lambda>j. effects (snd (iter w (length ts) j (ts ! j)))) [start..<m])
         @ (if ts = [] then [PlaylistIsEmpty]
            else if fst (play_from w ts start fresh) = Next then [PlaylistFinishedOrStopped]
            else [])"
    "\<forall>j. start \<le> j \<and> Suc j < m \<longrightarrow>
        fst (iter w (length ts) j (ts ! j)) = Next
        \<and> \<not> stopRequested (snd (iter w (length ts) j (ts ! j)))"
    "stopRequested (snd (play_from w ts start fresh))
       = (start < m \<and> stopRequested (snd (iter w (length ts) (m - 1) (ts ! (m - 1)))))"
    "start < m \<longrightarrow> fst (play_from w ts start fresh)
       = fst (iter w (length ts) (m - 1) (ts ! (m - 1)))"
    "start = m \<longrightarrow> play_from w ts start fresh = (Next, fresh)"
    "fst (play_from w ts start fresh) = Next
       \<and> \<not> stopRequested (snd (play_from w ts start fresh)) \<longrightarrow> length ts \<le> m"
    "fst (handlePlaylistCommand_play w ts start)
       = (if fst (play_from w ts start fresh) = Next then Return
          else fst (play_from w ts start fresh))"
    "stopRequested (snd (handlePlaylistCommand_play w ts start))
       = stopRequested (snd (play_from w ts start fresh))"
proof -
  from play_from_visits [of fresh start ts w]
  obtain m where a: "start \<le> m" "m \<le> length ts \<or> m = start"
    and e: "effects (snd (play_from w ts start fresh))
         = concat (map (\<lambda>j. effects (snd (iter w (length ts) j (ts ! j)))) [start..<m])"
    and b: "\<forall>j. start \<le> j \<and> Suc j < m \<longrightarrow>
        fst (iter w (length ts) j (ts ! j)) = Next
        \<and> \<not> stopRequested (snd (iter w (length ts) j (ts ! j)))"
    "stopRequested (snd (play_from w ts start fresh))
       = (start < m \<and> stopRequested (snd (iter w (length ts) (m - 1) (ts ! (m - 1)))))"
    "start < m \<longrightarrow> fst (play_from w ts start fresh)
       = fst (iter w (length ts) (m - 1) (ts ! (m - 1)))"
    "start = m \<longrightarrow> play_from w ts start fresh = (Next, fresh)"
    "fst (play_from w ts start fresh) = Next
       \<and> \<not> stopRequested (snd (play_from w ts start fresh)) \<longrightarrow> length ts \<le> m"
    by auto
  have ms: "m = start" if "ts = []" using a that by auto
  have pf: "play_from w ts start fresh = (Next, fresh)" if "ts = []"
    using that by (simp add: play_from_done)
  have c1: "effects (snd (handlePlaylistCommand_play w ts start))
       = concat (map (\<lambda>j. effects (snd (iter w (length ts) j (ts ! j)))) [start..<m])
         @ (if ts = [] then [PlaylistIsEmpty]
            else if fst (play_from w ts start fresh) = Next then [PlaylistFinishedOrStopped]
            else [])"
  proof (cases "ts = []")
    case True
    with ms show ?thesis by (simp add: handlePlaylistCommand_play_eq say_def)
  next
    case False
    with e show ?thesis by (simp add: handlePlaylistCommand_play_eq say_def)
  qed
  have c2: "fst (handlePlaylistCommand_play w ts start)
       = (if fst (play_from w ts start fresh) = Next then Return
          else fst (play_from w ts start fresh))"
  proof (cases "ts = []")
    case True
    with pf show ?thesis by (simp add: handlePlaylistCommand_play_eq)
  next
    case False
    then show ?thesis by (simp add: handlePlaylistCommand_play_eq)
  qed
  have c3: "stopRequested (snd (handlePlaylistCommand_play w ts start))
       = stopRequested (snd (play_from w ts start fresh))"
  proof (cases "ts = []")
    case True
    with pf show ?thesis by (simp add: handlePlaylistCommand_play_eq say_def)
  next
    case False
    then show ?thesis by (simp add: handlePlaylistCommand_play_eq say_def)
  qed
  show thesis by (rule that [OF a(1) a(2) c1 b(1) b(2) b(3) b(4) b(5) c2 c3])
qed

lemma run_member:
  assumes "effects (snd (handlePlaylistCommand_play w ts start))
       = concat (map (\<lambda>j. effects (snd (iter w (length ts) j (ts ! j)))) [start..<m])
         @ (if ts = [] then [PlaylistIsEmpty]
            else if fst (play_from w ts start fresh) = Next then [PlaylistFinishedOrStopped]
            else [])"
    and "e \<in> set (effects (snd (handlePlaylistCommand_play w ts start)))" and "about e = Some j"
  shows "start \<le> j \<and> j < m \<and> e \<in> set (effects (snd (iter w (length ts) j (ts ! j))))"
proof -
  from assms have "e \<in> set (concat (map (\<lambda>j. effects (snd (iter w (length ts) j (ts ! j)))) [start..<m]))"
    by (auto split: if_splits)
  then obtain j' where j': "start \<le> j'" "j' < m"
      "e \<in> set (effects (snd (iter w (length ts) j' (ts ! j'))))"
    unfolding in_concat_upt by blast
  from iter_about [OF j'(3)] assms(3) have "j' = j" by simp
  with j' show ?thesis by simp
qed

lemma run_visited:
  assumes "effects (snd (handlePlaylistCommand_play w ts start))
       = concat (map (\<lambda>j. effects (snd (iter w (length ts) j (ts ! j)))) [start..<m])
         @ (if ts = [] then [PlaylistIsEmpty]
            else if fst (play_from w ts start fresh) = Next then [PlaylistFinishedOrStopped]
            else [])"
    and "start \<le> j" "j < m" "e \<in> set (effects (snd (iter w (length ts) j (ts ! j))))"
  shows "e \<in> set (effects (snd (handlePlaylistCommand_play w ts start)))"
proof -
  from assms(2-4) have "e \<in> set (concat (map (\<lambda>j. effects (snd (iter w (length ts) j (ts ! j)))) [start..<m]))"
    unfolding in_concat_upt by blast
  with assms(1) show ?thesis by simp
qed

text \<open>When an iteration spawns a player, and with what.\<close>

lemma spawn_sig: "filter is_SpawnCall (sig_effects c k) = []"
  by (induction k) (auto simp: sig_effects_def split: option.splits)

lemma iter_spawns:
  assumes "truthy (url t) \<and> u = str (url t)
      \<or> \<not> truthy (url t) \<and> truthy (id_t t) \<and> stream_at w i (str (id_t t)) = Returns u \<and> u \<noteq> []"
    and "fst (detectAudioPlayer (os_at w i)) = Returns (Some p)" "p \<noteq> []"
    and "playlist_spawn p u = (c, a, io)"
  shows "filter is_SpawnCall (effects (snd (iter w n i t))) = [SpawnCall i c a io]"
  using assms
  unfolding iter_def fresh_def play_track_def resolve_step_def detect_step_def spawn_step_def
  by (auto simp: deliver_eq say_def Let_def split_beta truthy_def str_def spawn_sig
      split: spawned.splits option.splits)

lemma iter_spawns_nothing:
  assumes "\<not> truthy (url t)"
    and "truthy (id_t t) \<longrightarrow> (\<forall>u. stream_at w i (str (id_t t)) = Returns u \<longrightarrow> u = [])"
  shows "filter is_SpawnCall (effects (snd (iter w n i t))) = []"
  using assms
  unfolding iter_def fresh_def play_track_def resolve_step_def detect_step_def spawn_step_def
  by (auto simp: deliver_eq say_def Let_def split_beta truthy_def str_def spawn_sig
      split: outcome.splits option.splits)

lemma iter_spawn_where:
  assumes "fst (detectAudioPlayer (os_at w i)) = Returns (Some p)" "p \<noteq> []"
  shows "map about (filter is_SpawnCall (effects (snd (iter w n i t))))
     = (if truthy (url t)
           \<or> truthy (id_t t) \<and> (\<exists>u. stream_at w i (str (id_t t)) = Returns u \<and> u \<noteq> [])
        then [Some i] else [])"
proof (cases "truthy (url t)
           \<or> truthy (id_t t) \<and> (\<exists>u. stream_at w i (str (id_t t)) = Returns u \<and> u \<noteq> [])")
  case True
  then obtain u where u: "truthy (url t) \<and> u = str (url t)
      \<or> \<not> truthy (url t) \<and> truthy (id_t t) \<and> stream_at w i (str (id_t t)) = Returns u \<and> u \<noteq> []"
    by blast
  obtain c a io where "playlist_spawn p u = (c, a, io)" by (cases "playlist_spawn p u") auto
  from iter_spawns [OF u assms this] True show ?thesis by simp
next
  case False
  then have "filter is_SpawnCall (effects (snd (iter w n i t))) = []"
    by (intro iter_spawns_nothing) auto
  with False show ?thesis by simp
qed

text \<open>A track whose iteration only announces it and reports it, and the track after it.\<close>

lemma skipped_track:
  assumes reach: "NowPlaying (Suc k) (length ts) ttl \<in> set (effects (snd (handlePlaylistCommand_play w ts start)))"
    and it: "iter w (length ts) k (ts ! k) = (Next, \<lparr>currentChild = None, stopRequested = False,
         effects = [NowPlaying (Suc k) (length ts) (title (ts ! k)), rep]\<rparr>)"
    and rep: "about rep = None"
  shows "rep \<in> set (effects (snd (handlePlaylistCommand_play w ts start)))
    \<and> (\<forall>c a io. SpawnCall k c a io \<notin> set (effects (snd (handlePlaylistCommand_play w ts start))))
    \<and> (Suc k < length ts \<longrightarrow>
         NowPlaying (Suc (Suc k)) (length ts) (title (ts ! Suc k))
           \<in> set (effects (snd (handlePlaylistCommand_play w ts start)))
         \<and> (\<forall>u p c a io.
              (truthy (url (ts ! Suc k)) \<and> u = str (url (ts ! Suc k))
               \<or> \<not> truthy (url (ts ! Suc k)) \<and> truthy (id_t (ts ! Suc k))
                 \<and> stream_at w (Suc k) (str (id_t (ts ! Suc k))) = Returns u \<and> u \<noteq> [])
              \<and> fst (detectAudioPlayer (os_at w (Suc k))) = Returns (Some p) \<and> p \<noteq> []
              \<and> playlist_spawn p u = (c, a, io)
            \<longrightarrow> SpawnCall (Suc k) c a io
                  \<in> set (effects (snd (handlePlaylistCommand_play w ts start)))))"
proof -
  obtain m where m: "start \<le> m"
    and e: "effects (snd (handlePlaylistCommand_play w ts start))
       = concat (map (\<lambda>j. effects (snd (iter w (length ts) j (ts ! j)))) [start..<m])
         @ (if ts = [] then [PlaylistIsEmpty]
            else if fst (play_from w ts start fresh) = Next then [PlaylistFinishedOrStopped]
            else [])"
    and sr: "stopRequested (snd (play_from w ts start fresh))
       = (start < m \<and> stopRequested (snd (iter w (length ts) (m - 1) (ts ! (m - 1)))))"
    and la: "start < m \<longrightarrow> fst (play_from w ts start fresh)
       = fst (iter w (length ts) (m - 1) (ts ! (m - 1)))"
    and fin: "fst (play_from w ts start fresh) = Next
       \<and> \<not> stopRequested (snd (play_from w ts start fresh)) \<longrightarrow> length ts \<le> m"
    by (rule run_shape [of start ts w])
  from run_member [OF e reach] have k: "start \<le> k" "k < m" by simp_all
  have ek: "effects (snd (iter w (length ts) k (ts ! k)))
             = [NowPlaying (Suc k) (length ts) (title (ts ! k)), rep]"
    and fk: "fst (iter w (length ts) k (ts ! k)) = Next"
    and rk: "\<not> stopRequested (snd (iter w (length ts) k (ts ! k)))"
    using it by simp_all
  have a: "rep \<in> set (effects (snd (handlePlaylistCommand_play w ts start)))"
    using run_visited [OF e k] ek by simp
  have b: "SpawnCall k c a io \<notin> set (effects (snd (handlePlaylistCommand_play w ts start)))" for c a io
  proof
    assume "SpawnCall k c a io \<in> set (effects (snd (handlePlaylistCommand_play w ts start)))"
    from run_member [OF e this] ek rep show False by auto
  qed
  have nx: "Suc k < m" if lt: "Suc k < length ts"
    by (rule visits_next [OF m sr la fin k lt fk rk])
  have d: "NowPlaying (Suc (Suc k)) (length ts) (title (ts ! Suc k))
           \<in> set (effects (snd (handlePlaylistCommand_play w ts start)))" if lt: "Suc k < length ts"
    using nx [OF lt] k(1) run_visited [OF e _ _ iter_head [of "Suc k" "length ts" "ts ! Suc k" w]]
    by simp
  have s: "SpawnCall (Suc k) c a io \<in> set (effects (snd (handlePlaylistCommand_play w ts start)))"
    if lt: "Suc k < length ts"
      and u: "truthy (url (ts ! Suc k)) \<and> u = str (url (ts ! Suc k))
               \<or> \<not> truthy (url (ts ! Suc k)) \<and> truthy (id_t (ts ! Suc k))
                 \<and> stream_at w (Suc k) (str (id_t (ts ! Suc k))) = Returns u \<and> u \<noteq> []"
      and p: "fst (detectAudioPlayer (os_at w (Suc k))) = Returns (Some p)" "p \<noteq> []"
      and sp: "playlist_spawn p u = (c, a, io)" for u p c a io
  proof -
    have "SpawnCall (Suc k) c a io
            \<in> set (filter is_SpawnCall (effects (snd (iter w (length ts) (Suc k) (ts ! Suc k)))))"
      unfolding iter_spawns [OF u p sp] by simp
    then have "SpawnCall (Suc k) c a io \<in> set (effects (snd (iter w (length ts) (Suc k) (ts ! Suc k))))"
      by simp
    from run_visited [OF e _ nx [OF lt] this] k(1) show ?thesis by simp
  qed
  from a b d s show ?thesis by blast
qed

text \<open>
  C1: a track that fails does not end the sequence. Whenever track \<open>k\<close> is reached and its
  stream does not resolve (and no SIGINT arrives during that await), the failure is
  reported, nothing is spawned for \<open>k\<close>, and track \<open>k + 1\<close>, if there is one, is attempted:
  it is announced, and when it has a stored URL or its stream resolves and discovery finds
  a player, that player is spawned on that URL. The same holds for a track with neither a
  URL nor an id, which is reported as having no playable URL. When no SIGINT arrives,
  discovery finds a player and every await settles, the run returns after going through
  every track from the start index to the end in playlist order, whichever of them fail:
  each is announced, a player is spawned once for each track that has a URL or whose stream
  resolves, with the arguments for that URL, and for no other; a track whose stream does
  not resolve or that has neither URL nor id is reported. The run ends with the closing
  line, or with the line for an empty playlist when there are no tracks.
\<close>

theorem failure_isolation:
  "(\<forall>k ttl msg.
       NowPlaying (Suc k) (length ts) ttl \<in> set (effects (snd (handlePlaylistCommand_play w ts start)))
       \<and> \<not> truthy (url (ts ! k)) \<and> truthy (id_t (ts ! k))
       \<and> stream_at w k (str (id_t (ts ! k))) = Throws msg \<and> sigint_in_resolve w k = 0
     \<longrightarrow> FailedToResolveStream (title (ts ! k)) msg \<in> set (effects (snd (handlePlaylistCommand_play w ts start)))
       \<and> (\<forall>c a io. SpawnCall k c a io \<notin> set (effects (snd (handlePlaylistCommand_play w ts start))))
       \<and> (Suc k < length ts \<longrightarrow>
            NowPlaying (Suc (Suc k)) (length ts) (title (ts ! Suc k))
              \<in> set (effects (snd (handlePlaylistCommand_play w ts start)))
            \<and> (\<forall>u p c a io.
                 (truthy (url (ts ! Suc k)) \<and> u = str (url (ts ! Suc k))
                  \<or> \<not> truthy (url (ts ! Suc k)) \<and> truthy (id_t (ts ! Suc k))
                    \<and> stream_at w (Suc k) (str (id_t (ts ! Suc k))) = Returns u \<and> u \<noteq> [])
                 \<and> fst (detectAudioPlayer (os_at w (Suc k))) = Returns (Some p) \<and> p \<noteq> []
                 \<and> playlist_spawn p u = (c, a, io)
               \<longrightarrow> SpawnCall (Suc k) c a io
                     \<in> set (effects (snd (handlePlaylistCommand_play w ts start))))))
   \<and> (\<forall>k ttl.
       NowPlaying (Suc k) (length ts) ttl \<in> set (effects (snd (handlePlaylistCommand_play w ts start)))
       \<and> \<not> truthy (url (ts ! k)) \<and> \<not> truthy (id_t (ts ! k))
     \<longrightarrow> NoPlayableUrlSkipping (title (ts ! k)) \<in> set (effects (snd (handlePlaylistCommand_play w ts start)))
       \<and> (\<forall>c a io. SpawnCall k c a io \<notin> set (effects (snd (handlePlaylistCommand_play w ts start))))
       \<and> (Suc k < length ts \<longrightarrow>
            NowPlaying (Suc (Suc k)) (length ts) (title (ts ! Suc k))
              \<in> set (effects (snd (handlePlaylistCommand_play w ts start)))
            \<and> (\<forall>u p c a io.
                 (truthy (url (ts ! Suc k)) \<and> u = str (url (ts ! Suc k))
                  \<or> \<not> truthy (url (ts ! Suc k)) \<and> truthy (id_t (ts ! Suc k))
                    \<and> stream_at w (Suc k) (str (id_t (ts ! Suc k))) = Returns u \<and> u \<noteq> [])
                 \<and> fst (detectAudioPlayer (os_at w (Suc k))) = Returns (Some p) \<and> p \<noteq> []
                 \<and> playlist_spawn p u = (c, a, io)
               \<longrightarrow> SpawnCall (Suc k) c a io
                     \<in> set (effects (snd (handlePlaylistCommand_play w ts start))))))
   \<and> ((\<forall>i. sigint_in_resolve w i = 0 \<and> sigint_in_detect w i = 0 \<and> sigint_in_play w i = 0)
       \<and> (\<forall>i<length ts. \<exists>p. fst (detectAudioPlayer (os_at w i)) = Returns (Some p) \<and> p \<noteq> [])
       \<and> (\<forall>i c a io. launch (os_at w i) c a io \<noteq> Child [])
       \<and> (\<forall>i v. stream_at w i v \<noteq> Hangs)
     \<longrightarrow> fst (handlePlaylistCommand_play w ts start) = Return
       \<and> filter is_NowPlaying (effects (snd (handlePlaylistCommand_play w ts start)))
           = map (\<lambda>i. NowPlaying (Suc i) (length ts) (title (ts ! i))) [start..<length ts]
       \<and> map about (filter is_SpawnCall (effects (snd (handlePlaylistCommand_play w ts start))))
           = map Some
               (filter (\<lambda>i. truthy (url (ts ! i))
                           \<or> truthy (id_t (ts ! i))
                             \<and> (\<exists>u. stream_at w i (str (id_t (ts ! i))) = Returns u \<and> u \<noteq> []))
                  [start..<length ts])
       \<and> (\<forall>i u p c a io.
             start \<le> i \<and> i < length ts
             \<and> (truthy (url (ts ! i)) \<and> u = str (url (ts ! i))
                \<or> \<not> truthy (url (ts ! i)) \<and> truthy (id_t (ts ! i))
                  \<and> stream_at w i (str (id_t (ts ! i))) = Returns u \<and> u \<noteq> [])
             \<and> fst (detectAudioPlayer (os_at w i)) = Returns (Some p)
             \<and> playlist_spawn p u = (c, a, io)
           \<longrightarrow> SpawnCall i c a io \<in> set (effects (snd (handlePlaylistCommand_play w ts start))))
       \<and> (\<forall>i msg.
             start \<le> i \<and> i < length ts
             \<and> \<not> truthy (url (ts ! i)) \<and> truthy (id_t (ts ! i))
             \<and> stream_at w i (str (id_t (ts ! i))) = Throws msg
           \<longrightarrow> FailedToResolveStream (title (ts ! i)) msg
                 \<in> set (effects (snd (handlePlaylistCommand_play w ts start))))
       \<and> (\<forall>i.
             start \<le> i \<and> i < length ts
             \<and> \<not> truthy (url (ts ! i)) \<and> \<not> truthy (id_t (ts ! i))
           \<longrightarrow> NoPlayableUrlSkipping (title (ts ! i))
                 \<in> set (effects (snd (handlePlaylistCommand_play w ts start))))
       \<and> last (effects (snd (handlePlaylistCommand_play w ts start)))
           = (if ts = [] then PlaylistIsEmpty else PlaylistFinishedOrStopped))"
proof -
  let ?eff = "effects (snd (handlePlaylistCommand_play w ts start))"
  let ?E = "\<lambda>j. effects (snd (iter w (length ts) j (ts ! j)))"
  have p1: "FailedToResolveStream (title (ts ! k)) msg \<in> set ?eff
       \<and> (\<forall>c a io. SpawnCall k c a io \<notin> set ?eff)
       \<and> (Suc k < length ts \<longrightarrow>
            NowPlaying (Suc (Suc k)) (length ts) (title (ts ! Suc k)) \<in> set ?eff
            \<and> (\<forall>u p c a io.
                 (truthy (url (ts ! Suc k)) \<and> u = str (url (ts ! Suc k))
                  \<or> \<not> truthy (url (ts ! Suc k)) \<and> truthy (id_t (ts ! Suc k))
                    \<and> stream_at w (Suc k) (str (id_t (ts ! Suc k))) = Returns u \<and> u \<noteq> [])
                 \<and> fst (detectAudioPlayer (os_at w (Suc k))) = Returns (Some p) \<and> p \<noteq> []
                 \<and> playlist_spawn p u = (c, a, io)
               \<longrightarrow> SpawnCall (Suc k) c a io \<in> set ?eff))"
    if h: "NowPlaying (Suc k) (length ts) ttl \<in> set ?eff
       \<and> \<not> truthy (url (ts ! k)) \<and> truthy (id_t (ts ! k))
       \<and> stream_at w k (str (id_t (ts ! k))) = Throws msg \<and> sigint_in_resolve w k = 0"
    for k ttl msg
  proof -
    from h have it: "iter w (length ts) k (ts ! k) = (Next, \<lparr>currentChild = None, stopRequested = False,
         effects = [NowPlaying (Suc k) (length ts) (title (ts ! k)),
                    FailedToResolveStream (title (ts ! k)) msg]\<rparr>)"
      using iter_resolve_fails [of "ts ! k" w k msg "length ts"] by simp
    from h have r: "NowPlaying (Suc k) (length ts) ttl \<in> set ?eff" by simp
    show ?thesis by (rule skipped_track [OF r it]) simp
  qed
  have p2: "NoPlayableUrlSkipping (title (ts ! k)) \<in> set ?eff
       \<and> (\<forall>c a io. SpawnCall k c a io \<notin> set ?eff)
       \<and> (Suc k < length ts \<longrightarrow>
            NowPlaying (Suc (Suc k)) (length ts) (title (ts ! Suc k)) \<in> set ?eff
            \<and> (\<forall>u p c a io.
                 (truthy (url (ts ! Suc k)) \<and> u = str (url (ts ! Suc k))
                  \<or> \<not> truthy (url (ts ! Suc k)) \<and> truthy (id_t (ts ! Suc k))
                    \<and> stream_at w (Suc k) (str (id_t (ts ! Suc k))) = Returns u \<and> u \<noteq> [])
                 \<and> fst (detectAudioPlayer (os_at w (Suc k))) = Returns (Some p) \<and> p \<noteq> []
                 \<and> playlist_spawn p u = (c, a, io)
               \<longrightarrow> SpawnCall (Suc k) c a io \<in> set ?eff))"
    if h: "NowPlaying (Suc k) (length ts) ttl \<in> set ?eff
       \<and> \<not> truthy (url (ts ! k)) \<and> \<not> truthy (id_t (ts ! k))"
    for k ttl
  proof -
    from h have it: "iter w (length ts) k (ts ! k) = (Next, \<lparr>currentChild = None, stopRequested = False,
         effects = [NowPlaying (Suc k) (length ts) (title (ts ! k)),
                    NoPlayableUrlSkipping (title (ts ! k))]\<rparr>)"
      using iter_unplayable [of "ts ! k" w "length ts" k] by simp
    from h have r: "NowPlaying (Suc k) (length ts) ttl \<in> set ?eff" by simp
    show ?thesis by (rule skipped_track [OF r it]) simp
  qed
  have p3: "fst (handlePlaylistCommand_play w ts start) = Return
       \<and> filter is_NowPlaying ?eff
           = map (\<lambda>i. NowPlaying (Suc i) (length ts) (title (ts ! i))) [start..<length ts]
       \<and> map about (filter is_SpawnCall ?eff)
           = map Some
               (filter (\<lambda>i. truthy (url (ts ! i))
                           \<or> truthy (id_t (ts ! i))
                             \<and> (\<exists>u. stream_at w i (str (id_t (ts ! i))) = Returns u \<and> u \<noteq> []))
                  [start..<length ts])
       \<and> (\<forall>i u p c a io.
             start \<le> i \<and> i < length ts
             \<and> (truthy (url (ts ! i)) \<and> u = str (url (ts ! i))
                \<or> \<not> truthy (url (ts ! i)) \<and> truthy (id_t (ts ! i))
                  \<and> stream_at w i (str (id_t (ts ! i))) = Returns u \<and> u \<noteq> [])
             \<and> fst (detectAudioPlayer (os_at w i)) = Returns (Some p)
             \<and> playlist_spawn p u = (c, a, io)
           \<longrightarrow> SpawnCall i c a io \<in> set ?eff)
       \<and> (\<forall>i msg.
             start \<le> i \<and> i < length ts
             \<and> \<not> truthy (url (ts ! i)) \<and> truthy (id_t (ts ! i))
             \<and> stream_at w i (str (id_t (ts ! i))) = Throws msg
           \<longrightarrow> FailedToResolveStream (title (ts ! i)) msg \<in> set ?eff)
       \<and> (\<forall>i.
             start \<le> i \<and> i < length ts
             \<and> \<not> truthy (url (ts ! i)) \<and> \<not> truthy (id_t (ts ! i))
           \<longrightarrow> NoPlayableUrlSkipping (title (ts ! i)) \<in> set ?eff)
       \<and> last ?eff = (if ts = [] then PlaylistIsEmpty else PlaylistFinishedOrStopped)"
    if q: "(\<forall>i. sigint_in_resolve w i = 0 \<and> sigint_in_detect w i = 0 \<and> sigint_in_play w i = 0)
       \<and> (\<forall>i<length ts. \<exists>p. fst (detectAudioPlayer (os_at w i)) = Returns (Some p) \<and> p \<noteq> [])
       \<and> (\<forall>i c a io. launch (os_at w i) c a io \<noteq> Child [])
       \<and> (\<forall>i v. stream_at w i v \<noteq> Hangs)"
  proof -
    have quiet: "fst (iter w (length ts) j (ts ! j)) = Next
         \<and> \<not> stopRequested (snd (iter w (length ts) j (ts ! j)))" if "j < length ts" for j
    proof -
      from q that obtain p where "fst (detectAudioPlayer (os_at w j)) = Returns (Some p)" "p \<noteq> []"
        by blast
      with q show ?thesis by (intro iter_quiet [of w j p]) simp_all
    qed
    obtain m where m: "start \<le> m" "m \<le> length ts \<or> m = start"
      and e: "?eff = concat (map ?E [start..<m])
         @ (if ts = [] then [PlaylistIsEmpty]
            else if fst (play_from w ts start fresh) = Next then [PlaylistFinishedOrStopped]
            else [])"
      and sr: "stopRequested (snd (play_from w ts start fresh))
         = (start < m \<and> stopRequested (snd (iter w (length ts) (m - 1) (ts ! (m - 1)))))"
      and la: "start < m \<longrightarrow> fst (play_from w ts start fresh)
         = fst (iter w (length ts) (m - 1) (ts ! (m - 1)))"
      and em: "start = m \<longrightarrow> play_from w ts start fresh = (Next, fresh)"
      and fin: "fst (play_from w ts start fresh) = Next
         \<and> \<not> stopRequested (snd (play_from w ts start fresh)) \<longrightarrow> length ts \<le> m"
      and fl: "fst (handlePlaylistCommand_play w ts start)
         = (if fst (play_from w ts start fresh) = Next then Return
            else fst (play_from w ts start fresh))"
      by (rule run_shape [of start ts w])
    have ok: "fst (play_from w ts start fresh) = Next
         \<and> \<not> stopRequested (snd (play_from w ts start fresh))"
    proof (cases "start = m")
      case True
      with em show ?thesis by simp
    next
      case False
      with m have lt: "start < m" "m - 1 < length ts" by auto
      from quiet [OF lt(2)] la sr lt(1) show ?thesis by simp
    qed
    with fin have "length ts \<le> m" by simp
    with m have up: "[start..<m] = [start..<length ts]" by auto
    have e': "?eff = concat (map ?E [start..<length ts])
         @ (if ts = [] then [PlaylistIsEmpty] else [PlaylistFinishedOrStopped])"
      using e ok up by simp
    have vis: "x \<in> set ?eff" if "start \<le> i" "i < length ts" "x \<in> set (?E i)" for i x
    proof -
      from that have "x \<in> set (concat (map ?E [start..<length ts]))"
        unfolding in_concat_upt by blast
      then show ?thesis unfolding e' by simp
    qed
    have c1: "fst (handlePlaylistCommand_play w ts start) = Return" using ok fl by simp
    have c7: "last ?eff = (if ts = [] then PlaylistIsEmpty else PlaylistFinishedOrStopped)"
      unfolding e' by simp
    have "filter is_NowPlaying (concat (map ?E xs))
            = map (\<lambda>i. NowPlaying (Suc i) (length ts) (title (ts ! i))) xs" for xs
      by (induction xs) (simp_all add: iter_announces_once)
    then have c2: "filter is_NowPlaying ?eff
           = map (\<lambda>i. NowPlaying (Suc i) (length ts) (title (ts ! i))) [start..<length ts]"
      unfolding e' by simp
    have sp: "map about (filter is_SpawnCall (concat (map ?E xs)))
           = map Some
               (filter (\<lambda>i. truthy (url (ts ! i))
                           \<or> truthy (id_t (ts ! i))
                             \<and> (\<exists>u. stream_at w i (str (id_t (ts ! i))) = Returns u \<and> u \<noteq> []))
                  xs)" if "\<forall>i\<in>set xs. i < length ts" for xs
      using that
    proof (induction xs)
      case Nil
      show ?case by simp
    next
      case (Cons i xs)
      then have "i < length ts" by simp
      with q obtain p where "fst (detectAudioPlayer (os_at w i)) = Returns (Some p)" "p \<noteq> []"
        by blast
      from iter_spawn_where [OF this, of "length ts" "ts ! i"] Cons show ?case by simp
    qed
    have c3: "map about (filter is_SpawnCall ?eff)
           = map Some
               (filter (\<lambda>i. truthy (url (ts ! i))
                           \<or> truthy (id_t (ts ! i))
                             \<and> (\<exists>u. stream_at w i (str (id_t (ts ! i))) = Returns u \<and> u \<noteq> []))
                  [start..<length ts])"
      unfolding e' using sp [of "[start..<length ts]"] by simp
    have c4: "SpawnCall i c a io \<in> set ?eff"
      if i: "start \<le> i" "i < length ts"
        and u: "truthy (url (ts ! i)) \<and> u = str (url (ts ! i))
                \<or> \<not> truthy (url (ts ! i)) \<and> truthy (id_t (ts ! i))
                  \<and> stream_at w i (str (id_t (ts ! i))) = Returns u \<and> u \<noteq> []"
        and p: "fst (detectAudioPlayer (os_at w i)) = Returns (Some p)"
        and s: "playlist_spawn p u = (c, a, io)" for i u p c a io
    proof -
      from q i(2) p have pn: "p \<noteq> []" by auto
      have "SpawnCall i c a io \<in> set (filter is_SpawnCall (?E i))"
        unfolding iter_spawns [OF u p pn s] by simp
      then have "SpawnCall i c a io \<in> set (?E i)" by simp
      with i show ?thesis by (intro vis)
    qed
    have c5: "FailedToResolveStream (title (ts ! i)) msg \<in> set ?eff"
      if i: "start \<le> i" "i < length ts"
        and f: "\<not> truthy (url (ts ! i))" "truthy (id_t (ts ! i))"
          "stream_at w i (str (id_t (ts ! i))) = Throws msg" for i msg
    proof -
      from iter_resolve_fails [OF f, of "length ts"]
      have "FailedToResolveStream (title (ts ! i)) msg \<in> set (?E i)" by simp
      with i show ?thesis by (intro vis)
    qed
    have c6: "NoPlayableUrlSkipping (title (ts ! i)) \<in> set ?eff"
      if i: "start \<le> i" "i < length ts"
        and f: "\<not> truthy (url (ts ! i))" "\<not> truthy (id_t (ts ! i))" for i
    proof -
      from iter_unplayable [OF f, of w "length ts" i]
      have "NoPlayableUrlSkipping (title (ts ! i)) \<in> set (?E i)" by simp
      with i show ?thesis by (intro vis)
    qed
    from c1 c2 c3 c4 c5 c6 c7 show ?thesis by blast
  qed
  from p1 p2 p3 show ?thesis by blast
qed

lemma run_world_quiet:
  "handlePlaylistCommand_play world_quiet road_trip 0 =
     (Return, \<lparr>currentChild = None, stopRequested = False, effects = road_trip_effects\<rparr>)"
  by (simp add: run_simps world_quiet_def os_mpv_def road_trip_def road_trip_effects_def
      track_a_def track_b_def track_c_def track_d_def)

lemma run_mixtape:
  "handlePlaylistCommand_play world_quiet mixtape 0 =
     (Return, \<lparr>currentChild = None, stopRequested = False, effects = mixtape_effects\<rparr>)"
  by (simp add: run_simps world_quiet_def os_mpv_def mixtape_def mixtape_effects_def
      track_a_def track_b_def track_c_def track_d_def track_e_def)

theorem failure_isolation_witness:
  "NowPlaying 2 5 ''B'' \<in> set (effects (snd (handlePlaylistCommand_play world_quiet mixtape 0)))
   \<and> \<not> truthy (url (mixtape ! 1)) \<and> truthy (id_t (mixtape ! 1))
   \<and> stream_at world_quiet 1 (str (id_t (mixtape ! 1))) = Throws ''not available''
   \<and> sigint_in_resolve world_quiet 1 = 0
   \<and> \<not> truthy (url (mixtape ! 2)) \<and> truthy (id_t (mixtape ! 2))
   \<and> stream_at world_quiet 2 (str (id_t (mixtape ! 2))) = Returns ''http://ide''
   \<and> playlist_spawn ''mpv'' ''http://ide''
       = (''mpv'', [''http://ide'', ''--no-video'', ''--really-quiet''], Ignore)
   \<and> NowPlaying 4 5 ''D'' \<in> set (effects (snd (handlePlaylistCommand_play world_quiet mixtape 0)))
   \<and> \<not> truthy (url (mixtape ! 3)) \<and> \<not> truthy (id_t (mixtape ! 3))
   \<and> truthy (url (mixtape ! 4)) \<and> str (url (mixtape ! 4)) = ''http://c''
   \<and> playlist_spawn ''mpv'' ''http://c''
       = (''mpv'', [''http://c'', ''--no-video'', ''--really-quiet''], Ignore)
   \<and> (\<forall>i. sigint_in_resolve world_quiet i = 0 \<and> sigint_in_detect world_quiet i = 0
         \<and> sigint_in_play world_quiet i = 0)
   \<and> (\<forall>i. fst (detectAudioPlayer (os_at world_quiet i)) = Returns (Some ''mpv''))
   \<and> (\<forall>i c a io. launch (os_at world_quiet i) c a io \<noteq> Child [])
   \<and> (\<forall>i v. stream_at world_quiet i v \<noteq> Hangs)
   \<and> FailedToResolveStream ''B'' ''not available''
        \<in> set (effects (snd (handlePlaylistCommand_play world_quiet mixtape 0)))
   \<and> (\<forall>c a io. SpawnCall 1 c a io \<notin> set (effects (snd (handlePlaylistCommand_play world_quiet mixtape 0))))
   \<and> NowPlaying 3 5 ''E'' \<in> set (effects (snd (handlePlaylistCommand_play world_quiet mixtape 0)))
   \<and> SpawnCall 2 ''mpv'' [''http://ide'', ''--no-video'', ''--really-quiet''] Ignore
        \<in> set (effects (snd (handlePlaylistCommand_play world_quiet mixtape 0)))
   \<and> NoPlayableUrlSkipping ''D'' \<in> set (effects (snd (handlePlaylistCommand_play world_quiet mixtape 0)))
   \<and> (\<forall>c a io. SpawnCall 3 c a io \<notin> set (effects (snd (handlePlaylistCommand_play world_quiet mixtape 0))))
   \<and> NowPlaying 5 5 ''C'' \<in> set (effects (snd (handlePlaylistCommand_play world_quiet mixtape 0)))
   \<and> SpawnCall 4 ''mpv'' [''http://c'', ''--no-video'', ''--really-quiet''] Ignore
        \<in> set (effects (snd (handlePlaylistCommand_play world_quiet mixtape 0)))
   \<and> fst (handlePlaylistCommand_play world_quiet mixtape 0) = Return
   \<and> filter is_NowPlaying (effects (snd (handlePlaylistCommand_play world_quiet mixtape 0)))
       = [NowPlaying 1 5 ''A'', NowPlaying 2 5 ''B'', NowPlaying 3 5 ''E'', NowPlaying 4 5 ''D'',
          NowPlaying 5 5 ''C'']
   \<and> map about (filter is_SpawnCall (effects (snd (handlePlaylistCommand_play world_quiet mixtape 0))))
       = [Some 0, Some 2, Some 4]
   \<and> last (effects (snd (handlePlaylistCommand_play world_quiet mixtape 0))) = PlaylistFinishedOrStopped
   \<and> fst (handlePlaylistCommand_play world_quiet [] 0) = Return
   \<and> last (effects (snd (handlePlaylistCommand_play world_quiet [] 0))) = PlaylistIsEmpty"
proof -
  let ?eff = "effects (snd (handlePlaylistCommand_play world_quiet mixtape 0))"
  have len: "length mixtape = 5" by (simp add: mixtape_def)
  have n: "mixtape ! 0 = track_a" "mixtape ! 1 = track_b" "mixtape ! 2 = track_e"
    "mixtape ! 3 = track_d" "mixtape ! 4 = track_c"
    "mixtape ! Suc 1 = track_e" "mixtape ! Suc 3 = track_c"
    by (simp_all add: mixtape_def)
  have r: "?eff = mixtape_effects" by (simp add: run_mixtape)
  have sp: "playlist_spawn ''mpv'' u = (''mpv'', [u, ''--no-video'', ''--really-quiet''], Ignore)" for u
    by (simp add: playlist_spawn_def)
  have det: "fst (detectAudioPlayer (os_at world_quiet i)) = Returns (Some ''mpv'')" for i
    by (simp add: world_quiet_def os_mpv_def detect_os_events)
  have b: "\<not> truthy (url (mixtape ! 1)) \<and> truthy (id_t (mixtape ! 1))"
    "stream_at world_quiet 1 (str (id_t (mixtape ! 1))) = Throws ''not available''
     \<and> sigint_in_resolve world_quiet 1 = 0"
    unfolding n by (simp_all add: track_b_def truthy_def str_def world_quiet_def)
  have e: "\<not> truthy (url (mixtape ! 2)) \<and> truthy (id_t (mixtape ! 2))"
    "stream_at world_quiet 2 (str (id_t (mixtape ! 2))) = Returns ''http://ide''"
    unfolding n by (simp_all add: track_e_def truthy_def str_def world_quiet_def)
  have d: "\<not> truthy (url (mixtape ! 3)) \<and> \<not> truthy (id_t (mixtape ! 3))"
    unfolding n by (simp add: track_d_def truthy_def)
  have c: "truthy (url (mixtape ! 4)) \<and> str (url (mixtape ! 4)) = ''http://c''"
    unfolding n by (simp add: track_c_def truthy_def str_def)
  have a: "truthy (url (mixtape ! 0)) \<and> str (url (mixtape ! 0)) = ''http://a''"
    unfolding n by (simp add: track_a_def truthy_def str_def)
  have g1: "NowPlaying 2 5 ''B'' \<in> set ?eff" "NowPlaying 4 5 ''D'' \<in> set ?eff"
    unfolding r by (simp_all add: mixtape_effects_def)
  have g1a: "NowPlaying (Suc 1) (length mixtape) ''B'' \<in> set ?eff"
    "NowPlaying (Suc 3) (length mixtape) ''D'' \<in> set ?eff"
    unfolding r len by (simp_all add: mixtape_effects_def)
  have h1: "NowPlaying (Suc 1) (length mixtape) ''B'' \<in> set ?eff
     \<and> \<not> truthy (url (mixtape ! 1)) \<and> truthy (id_t (mixtape ! 1))
     \<and> stream_at world_quiet 1 (str (id_t (mixtape ! 1))) = Throws ''not available''
     \<and> sigint_in_resolve world_quiet 1 = 0"
    using g1a(1) b by blast
  have h2: "NowPlaying (Suc 3) (length mixtape) ''D'' \<in> set ?eff
     \<and> \<not> truthy (url (mixtape ! 3)) \<and> \<not> truthy (id_t (mixtape ! 3))"
    using g1a(2) d by blast
  have q: "(\<forall>i. sigint_in_resolve world_quiet i = 0 \<and> sigint_in_detect world_quiet i = 0
         \<and> sigint_in_play world_quiet i = 0)"
    "\<forall>i c a io. launch (os_at world_quiet i) c a io \<noteq> Child []"
    "\<forall>i v. stream_at world_quiet i v \<noteq> Hangs"
    by (simp_all add: world_quiet_def os_mpv_def launch_os_events)
  have h3: "(\<forall>i. sigint_in_resolve world_quiet i = 0 \<and> sigint_in_detect world_quiet i = 0
         \<and> sigint_in_play world_quiet i = 0)
   \<and> (\<forall>i<length ts. \<exists>p. fst (detectAudioPlayer (os_at world_quiet i)) = Returns (Some p) \<and> p \<noteq> [])
   \<and> (\<forall>i c a io. launch (os_at world_quiet i) c a io \<noteq> Child [])
   \<and> (\<forall>i v. stream_at world_quiet i v \<noteq> Hangs)" for ts :: "StoredTrack list"
    using q det by simp
  note T = failure_isolation [of mixtape world_quiet 0]
  note P1 = T [THEN conjunct1, rule_format, OF h1]
  note P2 = T [THEN conjunct2, THEN conjunct1, rule_format, OF h2]
  note P3 = T [THEN conjunct2, THEN conjunct2, rule_format, OF h3]
  note Q3 = failure_isolation [of "[]" world_quiet 0, THEN conjunct2, THEN conjunct2, rule_format, OF h3]
  have lt: "Suc 1 < length mixtape" "Suc 3 < length mixtape" by (simp_all add: len)
  have c1: "FailedToResolveStream ''B'' ''not available'' \<in> set ?eff"
    using P1 [THEN conjunct1] unfolding n by (simp add: track_b_def)
  have c2: "\<forall>c a io. SpawnCall 1 c a io \<notin> set ?eff"
    using P1 [THEN conjunct2, THEN conjunct1] .
  have c3: "NowPlaying 3 5 ''E'' \<in> set ?eff"
    using P1 [THEN conjunct2, THEN conjunct2, rule_format, OF lt(1), THEN conjunct1]
    unfolding n len by (simp add: track_e_def eval_nat_numeral)
  have u2: "(truthy (url (mixtape ! Suc 1)) \<and> ''http://ide'' = str (url (mixtape ! Suc 1))
       \<or> \<not> truthy (url (mixtape ! Suc 1)) \<and> truthy (id_t (mixtape ! Suc 1))
         \<and> stream_at world_quiet (Suc 1) (str (id_t (mixtape ! Suc 1))) = Returns ''http://ide''
         \<and> ''http://ide'' \<noteq> [])
      \<and> fst (detectAudioPlayer (os_at world_quiet (Suc 1))) = Returns (Some ''mpv'') \<and> ''mpv'' \<noteq> []
      \<and> playlist_spawn ''mpv'' ''http://ide''
          = (''mpv'', [''http://ide'', ''--no-video'', ''--really-quiet''], Ignore)"
    using det [of "Suc 1"] sp [of "''http://ide''"] unfolding n
    by (simp add: track_e_def truthy_def str_def world_quiet_def)
  have c4: "SpawnCall 2 ''mpv'' [''http://ide'', ''--no-video'', ''--really-quiet''] Ignore \<in> set ?eff"
    using P1 [THEN conjunct2, THEN conjunct2, rule_format, OF lt(1), THEN conjunct2, rule_format, OF u2]
    by (simp add: eval_nat_numeral)
  have c5: "NoPlayableUrlSkipping ''D'' \<in> set ?eff"
    using P2 [THEN conjunct1] unfolding n by (simp add: track_d_def)
  have c6: "\<forall>c a io. SpawnCall 3 c a io \<notin> set ?eff"
    using P2 [THEN conjunct2, THEN conjunct1] .
  have c7: "NowPlaying 5 5 ''C'' \<in> set ?eff"
    using P2 [THEN conjunct2, THEN conjunct2, rule_format, OF lt(2), THEN conjunct1]
    unfolding n len by (simp add: track_c_def)
  have u4: "(truthy (url (mixtape ! Suc 3)) \<and> ''http://c'' = str (url (mixtape ! Suc 3))
       \<or> \<not> truthy (url (mixtape ! Suc 3)) \<and> truthy (id_t (mixtape ! Suc 3))
         \<and> stream_at world_quiet (Suc 3) (str (id_t (mixtape ! Suc 3))) = Returns ''http://c''
         \<and> ''http://c'' \<noteq> [])
      \<and> fst (detectAudioPlayer (os_at world_quiet (Suc 3))) = Returns (Some ''mpv'') \<and> ''mpv'' \<noteq> []
      \<and> playlist_spawn ''mpv'' ''http://c''
          = (''mpv'', [''http://c'', ''--no-video'', ''--really-quiet''], Ignore)"
    using det [of "Suc 3"] sp [of "''http://c''"] unfolding n
    by (simp add: track_c_def truthy_def str_def world_quiet_def)
  have c8: "SpawnCall 4 ''mpv'' [''http://c'', ''--no-video'', ''--really-quiet''] Ignore \<in> set ?eff"
    using P2 [THEN conjunct2, THEN conjunct2, rule_format, OF lt(2), THEN conjunct2, rule_format, OF u4]
    by simp
  have c9: "fst (handlePlaylistCommand_play world_quiet mixtape 0) = Return"
    using P3 [THEN conjunct1] .
  have "filter is_NowPlaying ?eff
       = map (\<lambda>i. NowPlaying (Suc i) (length mixtape) (title (mixtape ! i))) [0..<length mixtape]"
    using P3 [THEN conjunct2, THEN conjunct1] .
  also have "\<dots> = [NowPlaying 1 5 ''A'', NowPlaying 2 5 ''B'', NowPlaying 3 5 ''E'',
          NowPlaying 4 5 ''D'', NowPlaying 5 5 ''C'']"
    unfolding len
    by (simp add: upt_rec mixtape_def track_a_def track_b_def track_c_def track_d_def track_e_def)
  finally have c10: "filter is_NowPlaying ?eff
       = [NowPlaying 1 5 ''A'', NowPlaying 2 5 ''B'', NowPlaying 3 5 ''E'', NowPlaying 4 5 ''D'',
          NowPlaying 5 5 ''C'']" .
  have "map about (filter is_SpawnCall ?eff)
       = map Some
           (filter (\<lambda>i. truthy (url (mixtape ! i))
                       \<or> truthy (id_t (mixtape ! i))
                         \<and> (\<exists>u. stream_at world_quiet i (str (id_t (mixtape ! i))) = Returns u \<and> u \<noteq> []))
              [0..<length mixtape])"
    using P3 [THEN conjunct2, THEN conjunct2, THEN conjunct1] .
  also have "\<dots> = [Some 0, Some 2, Some 4]"
    unfolding len
    by (simp add: upt_rec mixtape_def track_a_def track_b_def track_c_def track_d_def track_e_def
        truthy_def str_def world_quiet_def)
  finally have c11: "map about (filter is_SpawnCall ?eff) = [Some 0, Some 2, Some 4]" .
  have c12: "last ?eff = PlaylistFinishedOrStopped"
    using P3 [THEN conjunct2, THEN conjunct2, THEN conjunct2, THEN conjunct2, THEN conjunct2,
        THEN conjunct2] len
    by auto
  have c13: "fst (handlePlaylistCommand_play world_quiet [] 0) = Return"
    using Q3 [THEN conjunct1] .
  have c14: "last (effects (snd (handlePlaylistCommand_play world_quiet [] 0))) = PlaylistIsEmpty"
    using Q3 [THEN conjunct2, THEN conjunct2, THEN conjunct2, THEN conjunct2, THEN conjunct2,
        THEN conjunct2]
    by simp
  have dets: "\<forall>i. fst (detectAudioPlayer (os_at world_quiet i)) = Returns (Some ''mpv'')"
    using det by simp
  from g1 b e sp [of "''http://ide''"] d c sp [of "''http://c''"] q dets
    c1 c2 c3 c4 c5 c6 c7 c8 c9 c10 c11 c12 c13 c14
  show ?thesis by blast
qed

subsection \<open>Player discovery inside the loop\<close>





lemma iter_detect_is_call:
  "Detect j cs \<in> set (effects (snd (iter w n i t))) \<Longrightarrow>
   j = i \<and> cs = snd (detectAudioPlayer (os_at w i))"
  by (cases rule: iter_cases [of t w i n]) (auto dest: sig_effects_Some)








subsection \<open>Arguments of the spawned player\<close>

lemma playAndAwait_spawn_table:
  "playAndAwait_spawn ''cvlc'' u = (''cvlc'', [u, ''--intf'', ''dummy'', ''--play-and-exit''], Ignore)"
  "playAndAwait_spawn ''mpv'' u = (''mpv'', [u, ''--no-video'', ''--really-quiet''], Ignore)"
  "playAndAwait_spawn ''afplay'' u = (''afplay'', [u], Ignore)"
  "playAndAwait_spawn ''aplay'' u = (''aplay'', [''-f'', ''cd''], PipeIgnorePipe)"
  by (simp_all add: playAndAwait_spawn_def)

lemma playlist_spawn_table:
  "playlist_spawn ''cvlc'' u = (''cvlc'', [u, ''--intf'', ''dummy'', ''--play-and-exit''], Ignore)"
  "playlist_spawn ''mpv'' u = (''mpv'', [u, ''--no-video'', ''--really-quiet''], Ignore)"
  "playlist_spawn ''afplay'' u = (''afplay'', [u], Ignore)"
  "playlist_spawn ''aplay'' u = (''aplay'', [''-f'', ''cd''], PipeIgnorePipe)"
  by (simp_all add: playlist_spawn_def)

lemma spawn_other:
  "p \<notin> {''cvlc'', ''mpv'', ''afplay'', ''aplay''} \<Longrightarrow>
   playAndAwait_spawn p u = (p, [u], Ignore) \<and> playlist_spawn p u = (p, [u], Ignore)"
  by (simp add: playAndAwait_spawn_def playlist_spawn_def)

lemma iter_spawn_args:
  assumes "SpawnCall j c a io \<in> set (effects (snd (iter w n i t)))"
  shows "\<exists>p u. fst (detectAudioPlayer (os_at w i)) = Returns (Some p)
           \<and> (url t = Some u \<or> stream_at w i (str (id_t t)) = Returns u)
           \<and> playlist_spawn p u = (c, a, io)"
  using assms
proof (cases rule: iter_cases [of t w i n])
  case (spawn_throws k0 p u c' a' io' e)
  from assms spawn_throws(7) have "c' = c \<and> a' = a \<and> io' = io" by auto
  moreover from spawn_throws(4) obtain q where "p = Some q"
    by (auto simp: truthy_def split: option.splits)
  ultimately show ?thesis using spawn_throws(3,5,8) by (auto simp: str_def)
next
  case (child k0 p u c' a' io' evs)
  from assms child(7) have "c' = c \<and> a' = a \<and> io' = io" by (auto dest: sig_effects_Some)
  moreover from child(4) obtain q where "p = Some q"
    by (auto simp: truthy_def split: option.splits)
  ultimately show ?thesis using child(3,5,8) by (auto simp: str_def)
qed (auto dest: sig_effects_Some)

text \<open>
  C7: both places that spawn a player build the same call. For cvlc the arguments are the
  URL, \<^verbatim>\<open>--intf\<close>, \<^verbatim>\<open>dummy\<close>, \<^verbatim>\<open>--play-and-exit\<close>; for mpv the URL, \<^verbatim>\<open>--no-video\<close>,
  \<^verbatim>\<open>--really-quiet\<close>; for afplay the URL alone; for aplay \<^verbatim>\<open>-f\<close>, \<^verbatim>\<open>cd\<close> with stdin and
  stderr piped; for any other name the URL alone. All but aplay ignore stdio. These are the
  calls made: playAndAwait spawns what its table gives for the player found, and every
  spawn of the playlist loop is what its table gives for the player found in that
  iteration and the stored or resolved URL of the track.
\<close>

theorem player_argument_shaping:
  "playAndAwait_spawn ''cvlc'' u = (''cvlc'', [u, ''--intf'', ''dummy'', ''--play-and-exit''], Ignore)
   \<and> playlist_spawn ''cvlc'' u = (''cvlc'', [u, ''--intf'', ''dummy'', ''--play-and-exit''], Ignore)
   \<and> playAndAwait_spawn ''mpv'' u = (''mpv'', [u, ''--no-video'', ''--really-quiet''], Ignore)
   \<and> playlist_spawn ''mpv'' u = (''mpv'', [u, ''--no-video'', ''--really-quiet''], Ignore)
   \<and> playAndAwait_spawn ''afplay'' u = (''afplay'', [u], Ignore)
   \<and> playlist_spawn ''afplay'' u = (''afplay'', [u], Ignore)
   \<and> playAndAwait_spawn ''aplay'' u = (''aplay'', [''-f'', ''cd''], PipeIgnorePipe)
   \<and> playlist_spawn ''aplay'' u = (''aplay'', [''-f'', ''cd''], PipeIgnorePipe)
   \<and> (p \<notin> {''cvlc'', ''mpv'', ''afplay'', ''aplay''}
        \<longrightarrow> playAndAwait_spawn p u = (p, [u], Ignore) \<and> playlist_spawn p u = (p, [u], Ignore))
   \<and> (fst (detectAudioPlayer sys) = Returns (Some p) \<and> p \<noteq> []
        \<longrightarrow> spawn_call (playAndAwait sys u ttl) = Some (playAndAwait_spawn p u))
   \<and> (\<forall>k c a io. SpawnCall k c a io \<in> set (effects (snd (handlePlaylistCommand_play w ts start)))
        \<longrightarrow> (\<exists>q v. fst (detectAudioPlayer (os_at w k)) = Returns (Some q)
               \<and> (url (ts ! k) = Some v \<or> stream_at w k (str (id_t (ts ! k))) = Returns v)
               \<and> playlist_spawn q v = (c, a, io)))"
proof -
  have a: "fst (detectAudioPlayer sys) = Returns (Some p) \<and> p \<noteq> []
        \<longrightarrow> spawn_call (playAndAwait sys u ttl) = Some (playAndAwait_spawn p u)"
    by (simp add: playAndAwait_found split: spawned.splits)
  have b: "\<exists>q v. fst (detectAudioPlayer (os_at w k)) = Returns (Some q)
               \<and> (url (ts ! k) = Some v \<or> stream_at w k (str (id_t (ts ! k))) = Returns v)
               \<and> playlist_spawn q v = (c, a, io)"
    if h: "SpawnCall k c a io \<in> set (effects (snd (handlePlaylistCommand_play w ts start)))" for k c a io
  proof -
    obtain m where e: "effects (snd (handlePlaylistCommand_play w ts start))
       = concat (map (\<lambda>j. effects (snd (iter w (length ts) j (ts ! j)))) [start..<m])
         @ (if ts = [] then [PlaylistIsEmpty]
            else if fst (play_from w ts start fresh) = Next then [PlaylistFinishedOrStopped]
            else [])"
      by (rule run_shape [of start ts w])
    from run_member [OF e h]
    have "SpawnCall k c a io \<in> set (effects (snd (iter w (length ts) k (ts ! k))))" by simp
    then show ?thesis by (rule iter_spawn_args)
  qed
  have c: "p \<notin> {''cvlc'', ''mpv'', ''afplay'', ''aplay''}
        \<longrightarrow> playAndAwait_spawn p u = (p, [u], Ignore) \<and> playlist_spawn p u = (p, [u], Ignore)"
    using spawn_other [of p u] by blast
  have d: "playAndAwait_spawn ''cvlc'' u = (''cvlc'', [u, ''--intf'', ''dummy'', ''--play-and-exit''], Ignore)
   \<and> playlist_spawn ''cvlc'' u = (''cvlc'', [u, ''--intf'', ''dummy'', ''--play-and-exit''], Ignore)
   \<and> playAndAwait_spawn ''mpv'' u = (''mpv'', [u, ''--no-video'', ''--really-quiet''], Ignore)
   \<and> playlist_spawn ''mpv'' u = (''mpv'', [u, ''--no-video'', ''--really-quiet''], Ignore)
   \<and> playAndAwait_spawn ''afplay'' u = (''afplay'', [u], Ignore)
   \<and> playlist_spawn ''afplay'' u = (''afplay'', [u], Ignore)
   \<and> playAndAwait_spawn ''aplay'' u = (''aplay'', [''-f'', ''cd''], PipeIgnorePipe)
   \<and> playlist_spawn ''aplay'' u = (''aplay'', [''-f'', ''cd''], PipeIgnorePipe)"
    by (simp only: playAndAwait_spawn_table playlist_spawn_table simp_thms)
  from a b c d show ?thesis by blast
qed

theorem player_argument_shaping_witness:
  "''ffplay'' \<notin> {''cvlc'', ''mpv'', ''afplay'', ''aplay''}
   \<and> playAndAwait_spawn ''ffplay'' ''http://x'' = (''ffplay'', [''http://x''], Ignore)
   \<and> playlist_spawn ''ffplay'' ''http://x'' = (''ffplay'', [''http://x''], Ignore)
   \<and> fst (detectAudioPlayer os_aplay) = Returns (Some ''aplay'')
   \<and> spawn_call (playAndAwait os_aplay ''http://x'' ''X'')
       = Some (''aplay'', [''-f'', ''cd''], PipeIgnorePipe)
   \<and> SpawnCall 0 ''mpv'' [''http://a'', ''--no-video'', ''--really-quiet''] Ignore
       \<in> set (effects (snd (handlePlaylistCommand_play world_quiet road_trip 0)))
   \<and> fst (detectAudioPlayer (os_at world_quiet 0)) = Returns (Some ''mpv'')
   \<and> url (road_trip ! 0) = Some ''http://a''"
proof -
  have h1: "''ffplay'' \<notin> {''cvlc'', ''mpv'', ''afplay'', ''aplay''}" by simp
  have h2: "fst (detectAudioPlayer os_aplay) = Returns (Some ''aplay'')"
    by (simp add: detectAudioPlayer_def os_aplay_def availablePlayers_def players_def
        probe_promise_def)
  have h2': "fst (detectAudioPlayer os_aplay) = Returns (Some ''aplay'') \<and> ''aplay'' \<noteq> []"
    using h2 by simp
  have h3: "SpawnCall 0 ''mpv'' [''http://a'', ''--no-video'', ''--really-quiet''] Ignore
       \<in> set (effects (snd (handlePlaylistCommand_play world_quiet road_trip 0)))"
    by (simp add: run_world_quiet road_trip_effects_def)
  note T1 = player_argument_shaping [of "''http://x''" "''ffplay''" os_aplay "''X''" world_quiet road_trip 0]
  note T2 = player_argument_shaping [of "''http://x''" "''aplay''" os_aplay "''X''" world_quiet road_trip 0]
  from T1 h1 have c1: "playAndAwait_spawn ''ffplay'' ''http://x'' = (''ffplay'', [''http://x''], Ignore)
   \<and> playlist_spawn ''ffplay'' ''http://x'' = (''ffplay'', [''http://x''], Ignore)"
    by blast
  from T2 h2' have "spawn_call (playAndAwait os_aplay ''http://x'' ''X'')
       = Some (playAndAwait_spawn ''aplay'' ''http://x'')" by blast
  moreover from T2 have "playAndAwait_spawn ''aplay'' ''http://x'' = (''aplay'', [''-f'', ''cd''], PipeIgnorePipe)"
    by blast
  ultimately have c2: "spawn_call (playAndAwait os_aplay ''http://x'' ''X'')
       = Some (''aplay'', [''-f'', ''cd''], PipeIgnorePipe)" by simp
  have c3: "fst (detectAudioPlayer (os_at world_quiet 0)) = Returns (Some ''mpv'')"
    by (simp add: world_quiet_def os_mpv_def detect_os_events)
  have c4: "url (road_trip ! 0) = Some ''http://a''"
    by (simp add: road_trip_def track_a_def)
  from h1 h2 h3 c1 c2 c3 c4 show ?thesis by blast
qed

section \<open>Properties of the continuation\<close>

lemma cont_track_settles:
  assumes "\<forall>v. stream_at w j v \<noteq> Hangs"
    and "\<forall>c\<in>set (availablePlayers (platform (os_at w j))). probe_promise (probe (os_at w j) c) \<noteq> Pending"
    and "\<forall>c a io. launch (os_at w j) c a io \<noteq> Child []"
  shows "\<exists>ev. cont_track w j x = (Next, [ev])
     \<and> ((\<exists>e. ev = FailedToResolve (title x) e) \<or> ev = NoPlayableUrl (title x)
        \<or> (\<exists>u. ev = Played u (title x) (playAndAwait (os_at w j) u (title x))
              \<and> (url x = Some u \<or> stream_at w j (str (id_t x)) = Returns u)))"
proof -
  have pa: "\<exists>b. result (playAndAwait (os_at w j) u (title x)) = Returns b" for u
    using assms(2,3) by (rule playAndAwait_returns)
  show ?thesis
  proof (cases "\<not> truthy (url x) \<and> truthy (id_t x)")
    case True
    show ?thesis
    proof (cases "stream_at w j (str (id_t x))")
      case (Returns u)
      show ?thesis
      proof (cases "truthy (Some u)")
        case True
        from pa [of u] obtain b where "result (playAndAwait (os_at w j) u (title x)) = Returns b" ..
        with \<open>\<not> truthy (url x) \<and> truthy (id_t x)\<close> Returns True show ?thesis
          by (simp add: cont_track_def str_def)
      next
        case False
        with \<open>\<not> truthy (url x) \<and> truthy (id_t x)\<close> Returns show ?thesis
          by (simp add: cont_track_def)
      qed
    next
      case (Throws e)
      with True show ?thesis by (simp add: cont_track_def)
    next
      case Hangs
      with assms(1) show ?thesis by simp
    qed
  next
    case False
    show ?thesis
    proof (cases "truthy (url x)")
      case True
      then obtain u where u: "url x = Some u" by (auto simp: truthy_def split: option.splits)
      from pa [of u] obtain b where "result (playAndAwait (os_at w j) u (title x)) = Returns b" ..
      with True u show ?thesis by (simp add: cont_track_def str_def)
    next
      case nt: False
      with False show ?thesis by (simp add: cont_track_def)
    qed
  qed
qed

lemma cont_from_all:
  assumes "\<forall>j. i \<le> j \<and> j < length ts \<longrightarrow> fst (cont_track w j (ts ! j)) = Next"
  shows "cont_from w ts i
           = (Next, concat (map (\<lambda>j. snd (cont_track w j (ts ! j))) [i..<length ts]))"
  using assms
proof (induction w ts i rule: cont_from.induct)
  case (1 w ts i)
  show ?case
  proof (cases "i < length ts")
    case True
    with "1.prems" have f: "fst (cont_track w i (ts ! i)) = Next" by simp
    then obtain evs where ct: "cont_track w i (ts ! i) = (Next, evs)"
      by (cases "cont_track w i (ts ! i)") simp
    have "\<forall>j. Suc i \<le> j \<and> j < length ts \<longrightarrow> fst (cont_track w j (ts ! j)) = Next"
      using "1.prems" by simp
    from "1.IH" [OF True ct [symmetric] refl this]
    have ih: "cont_from w ts (Suc i)
           = (Next, concat (map (\<lambda>j. snd (cont_track w j (ts ! j))) [Suc i..<length ts]))" .
    have up: "[i..<length ts] = i # [Suc i..<length ts]" using True by (simp add: upt_conv_Cons)
    show ?thesis
      by (subst cont_from.simps) (simp add: True ct ih up)
  next
    case False
    then show ?thesis by (subst cont_from.simps) simp
  qed
qed

lemma find_none: "(\<forall>q\<in>set xs. \<not> P q) \<Longrightarrow> find P xs = None"
  by (induction xs) auto

lemma list_ex_iff_set: "list_ex P xs \<longleftrightarrow> (\<exists>x\<in>set xs. P x)"
  by (simp add: list_ex_iff)

lemma continuation_no_match:
  assumes "listPlaylists d = Lists pls"
    and "\<forall>q\<in>set pls. \<forall>x\<in>set (tracks q). id_t x \<noteq> Some vid"
  shows "continuation w d vid = (Next, [])"
proof -
  from assms(2) have "find (\<lambda>pl. list_ex (\<lambda>t. id_t t = Some vid) (tracks pl)) pls = None"
    by (intro find_none) (simp add: list_ex_iff)
  with assms(1) show ?thesis by (simp add: continuation_def)
qed

lemma continuation_match:
  assumes "listPlaylists d = Lists (pre @ pl # post)"
    and "\<forall>q\<in>set pre. \<forall>x\<in>set (tracks q). id_t x \<noteq> Some vid"
    and "tracks pl = tpre @ t # tpost" and "id_t t = Some vid"
    and "\<forall>x\<in>set tpre. id_t x \<noteq> Some vid"
  shows "continuation w d vid =
     (if tpost = [] then (Next, [])
      else (case cont_from w (tracks pl) (Suc (length tpre)) of
              (Next, evs) \<Rightarrow> (Next, Continuing (name pl) # evs @ [PlaylistFinished])
            | (Return, evs) \<Rightarrow> (Return, Continuing (name pl) # evs)
            | (Reject e, evs) \<Rightarrow> (Reject e, Continuing (name pl) # evs)
            | (Stuck, evs) \<Rightarrow> (Stuck, Continuing (name pl) # evs)))"
proof -
  have f: "find (\<lambda>pl. list_ex (\<lambda>t. id_t t = Some vid) (tracks pl)) (pre @ pl # post) = Some pl"
    using assms(2,3,4) by (intro find_first) (auto simp: list_ex_iff)
  have i: "findIndex (\<lambda>t. id_t t = Some vid) (tracks pl) = int (length tpre)"
    unfolding assms(3) using assms(4,5) by (intro findIndex_first) auto
  have n: "nat (int (length tpre) + 1) = Suc (length tpre)" by simp
  have l: "int (length (tracks pl)) - 1 = int (length tpre) + int (length tpost)"
    using assms(3) by simp
  show ?thesis
    using assms(1) by (cases tpost) (simp_all add: continuation_def f i n l Let_def)
qed

lemma cont_track_event:
  assumes "\<forall>v. stream_at w j v \<noteq> Hangs"
    and "\<forall>c\<in>set (availablePlayers (platform (os_at w j))). probe_promise (probe (os_at w j) c) \<noteq> Pending"
    and "\<forall>c a io. launch (os_at w j) c a io \<noteq> Child []"
  shows "\<exists>ev. cont_track w j x = (Next, [ev])
     \<and> (truthy (url x) \<longrightarrow>
          ev = Played (str (url x)) (title x) (playAndAwait (os_at w j) (str (url x)) (title x)))
     \<and> (\<not> truthy (url x) \<and> truthy (id_t x) \<longrightarrow>
          (\<forall>u. stream_at w j (str (id_t x)) = Returns u \<and> u \<noteq> []
             \<longrightarrow> ev = Played u (title x) (playAndAwait (os_at w j) u (title x)))
          \<and> (stream_at w j (str (id_t x)) = Returns [] \<longrightarrow> ev = NoPlayableUrl (title x))
          \<and> (\<forall>e. stream_at w j (str (id_t x)) = Throws e \<longrightarrow> ev = FailedToResolve (title x) e))
     \<and> (\<not> truthy (url x) \<and> \<not> truthy (id_t x) \<longrightarrow> ev = NoPlayableUrl (title x))"
proof -
  have pa: "\<exists>b. result (playAndAwait (os_at w j) u (title x)) = Returns b" for u
    using assms(2,3) by (rule playAndAwait_returns)
  show ?thesis
  proof (cases "\<not> truthy (url x) \<and> truthy (id_t x)")
    case True
    show ?thesis
    proof (cases "stream_at w j (str (id_t x))")
      case (Returns u)
      show ?thesis
      proof (cases "u = []")
        case False
        from pa [of u] obtain b where "result (playAndAwait (os_at w j) u (title x)) = Returns b" ..
        with True Returns False show ?thesis
          by (simp add: cont_track_def str_def truthy_def)
      next
        case e: True
        with True Returns show ?thesis
          by (simp add: cont_track_def truthy_def)
      qed
    next
      case (Throws e)
      with True show ?thesis by (simp add: cont_track_def)
    next
      case Hangs
      with assms(1) show ?thesis by simp
    qed
  next
    case False
    show ?thesis
    proof (cases "truthy (url x)")
      case True
      from pa [of "str (url x)"] obtain b
        where "result (playAndAwait (os_at w j) (str (url x)) (title x)) = Returns b" ..
      with True show ?thesis by (simp add: cont_track_def)
    next
      case nt: False
      with False show ?thesis by (simp add: cont_track_def)
    qed
  qed
qed

lemma handleYouTubeStream_play_Returns:
  assumes "result (playAndAwait sys audioUrl ttl) = Returns b"
  shows "handleYouTubeStream_play sys w d audioUrl vid ttl =
     (if fst (continuation w d vid) = Stuck then Hangs else Returns b,
      playAndAwait sys audioUrl ttl, snd (continuation w d vid))"
  using assms
  by (cases "continuation w d vid"; cases "fst (continuation w d vid)")
     (auto simp: handleYouTubeStream_play_def Let_def)

text \<open>
  C3: what handleYouTubeStream does after the selected track has played and returned.
  When no stored playlist has a track with the selected id, nothing is continued. Otherwise
  the first playlist in store order that has such a track is taken, and in it the first
  such track. When that track is the last one, nothing is continued. When it is not and
  every await settles, the function returns what the first playback returned, after
  announcing that playlist, going through exactly the tracks after the matched one, each
  once and in playlist order, and printing the closing line. Each of these tracks yields
  one event, fixed by the track: a track with a stored URL is handed to playAndAwait with
  that URL and its title; a track without one but with an id is handed to playAndAwait
  with the URL its stream resolves to, reported as having no playable URL when the stream
  resolves to nothing, and reported as unresolved, with the message, when resolution
  fails; a track with neither is reported as having no playable URL.
\<close>

theorem continuation_plays_suffix:
  "(\<forall>b pls. result (playAndAwait sys audioUrl ttl) = Returns b
        \<and> listPlaylists d = Lists pls
        \<and> (\<forall>q\<in>set pls. \<forall>x\<in>set (tracks q). id_t x \<noteq> Some vid)
      \<longrightarrow> handleYouTubeStream_play sys w d audioUrl vid ttl
            = (Returns b, playAndAwait sys audioUrl ttl, []))
   \<and> (\<forall>b pre pl post tpre t tpost.
        result (playAndAwait sys audioUrl ttl) = Returns b
        \<and> listPlaylists d = Lists (pre @ pl # post)
        \<and> (\<forall>q\<in>set pre. \<forall>x\<in>set (tracks q). id_t x \<noteq> Some vid)
        \<and> tracks pl = tpre @ t # tpost \<and> id_t t = Some vid
        \<and> (\<forall>x\<in>set tpre. id_t x \<noteq> Some vid)
      \<longrightarrow> (tpost = [] \<longrightarrow>
             handleYouTubeStream_play sys w d audioUrl vid ttl
               = (Returns b, playAndAwait sys audioUrl ttl, []))
        \<and> (tpost \<noteq> []
            \<and> (\<forall>j v. stream_at w j v \<noteq> Hangs)
            \<and> (\<forall>j. \<forall>c\<in>set (availablePlayers (platform (os_at w j))).
                   probe_promise (probe (os_at w j) c) \<noteq> Pending)
            \<and> (\<forall>j c a io. launch (os_at w j) c a io \<noteq> Child [])
           \<longrightarrow> fst (handleYouTubeStream_play sys w d audioUrl vid ttl) = Returns b
             \<and> fst (snd (handleYouTubeStream_play sys w d audioUrl vid ttl))
                 = playAndAwait sys audioUrl ttl
             \<and> (\<exists>evs.
                   snd (snd (handleYouTubeStream_play sys w d audioUrl vid ttl))
                     = Continuing (name pl) # evs @ [PlaylistFinished]
                   \<and> length evs = length tpost
                   \<and> (\<forall>i<length tpost.
                        (truthy (url (tpost ! i)) \<longrightarrow>
                           evs ! i = Played (str (url (tpost ! i))) (title (tpost ! i))
                                       (playAndAwait (os_at w (Suc (length tpre) + i))
                                          (str (url (tpost ! i))) (title (tpost ! i))))
                        \<and> (\<not> truthy (url (tpost ! i)) \<and> truthy (id_t (tpost ! i)) \<longrightarrow>
                             (\<forall>u. stream_at w (Suc (length tpre) + i) (str (id_t (tpost ! i)))
                                    = Returns u \<and> u \<noteq> []
                                \<longrightarrow> evs ! i = Played u (title (tpost ! i))
                                       (playAndAwait (os_at w (Suc (length tpre) + i)) u
                                          (title (tpost ! i))))
                             \<and> (stream_at w (Suc (length tpre) + i) (str (id_t (tpost ! i)))
                                    = Returns []
                                \<longrightarrow> evs ! i = NoPlayableUrl (title (tpost ! i)))
                             \<and> (\<forall>e. stream_at w (Suc (length tpre) + i) (str (id_t (tpost ! i)))
                                    = Throws e
                                \<longrightarrow> evs ! i = FailedToResolve (title (tpost ! i)) e))
                        \<and> (\<not> truthy (url (tpost ! i)) \<and> \<not> truthy (id_t (tpost ! i)) \<longrightarrow>
                             evs ! i = NoPlayableUrl (title (tpost ! i)))))))"
proof (intro conjI allI impI)
  fix b pls
  assume h: "result (playAndAwait sys audioUrl ttl) = Returns b
        \<and> listPlaylists d = Lists pls
        \<and> (\<forall>q\<in>set pls. \<forall>x\<in>set (tracks q). id_t x \<noteq> Some vid)"
  then have "continuation w d vid = (Next, [])" using continuation_no_match by blast
  with h show "handleYouTubeStream_play sys w d audioUrl vid ttl
            = (Returns b, playAndAwait sys audioUrl ttl, [])"
    by (simp add: handleYouTubeStream_play_Returns)
next
  fix b pre pl post tpre t tpost
  assume h: "result (playAndAwait sys audioUrl ttl) = Returns b
        \<and> listPlaylists d = Lists (pre @ pl # post)
        \<and> (\<forall>q\<in>set pre. \<forall>x\<in>set (tracks q). id_t x \<noteq> Some vid)
        \<and> tracks pl = tpre @ t # tpost \<and> id_t t = Some vid
        \<and> (\<forall>x\<in>set tpre. id_t x \<noteq> Some vid)"
  then have r: "result (playAndAwait sys audioUrl ttl) = Returns b" by simp
  have m: "continuation w d vid =
     (if tpost = [] then (Next, [])
      else (case cont_from w (tracks pl) (Suc (length tpre)) of
              (Next, evs) \<Rightarrow> (Next, Continuing (name pl) # evs @ [PlaylistFinished])
            | (Return, evs) \<Rightarrow> (Return, Continuing (name pl) # evs)
            | (Reject e, evs) \<Rightarrow> (Reject e, Continuing (name pl) # evs)
            | (Stuck, evs) \<Rightarrow> (Stuck, Continuing (name pl) # evs)))"
    using continuation_match [of d pre pl post vid tpre t tpost w] h by blast
  {
    assume "tpost = []"
    with m r show "handleYouTubeStream_play sys w d audioUrl vid ttl
               = (Returns b, playAndAwait sys audioUrl ttl, [])"
      by (simp add: handleYouTubeStream_play_Returns)
  }
  assume s: "tpost \<noteq> []
            \<and> (\<forall>j v. stream_at w j v \<noteq> Hangs)
            \<and> (\<forall>j. \<forall>c\<in>set (availablePlayers (platform (os_at w j))).
                   probe_promise (probe (os_at w j) c) \<noteq> Pending)
            \<and> (\<forall>j c a io. launch (os_at w j) c a io \<noteq> Child [])"
  define f where "f j x = hd (snd (cont_track w j x))" for j x
  have one: "cont_track w j x = (Next, [f j x])
     \<and> (truthy (url x) \<longrightarrow>
          f j x = Played (str (url x)) (title x) (playAndAwait (os_at w j) (str (url x)) (title x)))
     \<and> (\<not> truthy (url x) \<and> truthy (id_t x) \<longrightarrow>
          (\<forall>u. stream_at w j (str (id_t x)) = Returns u \<and> u \<noteq> []
             \<longrightarrow> f j x = Played u (title x) (playAndAwait (os_at w j) u (title x)))
          \<and> (stream_at w j (str (id_t x)) = Returns [] \<longrightarrow> f j x = NoPlayableUrl (title x))
          \<and> (\<forall>e. stream_at w j (str (id_t x)) = Throws e \<longrightarrow> f j x = FailedToResolve (title x) e))
     \<and> (\<not> truthy (url x) \<and> \<not> truthy (id_t x) \<longrightarrow> f j x = NoPlayableUrl (title x))" for j x
  proof -
    from s have "\<exists>ev. cont_track w j x = (Next, [ev])
     \<and> (truthy (url x) \<longrightarrow>
          ev = Played (str (url x)) (title x) (playAndAwait (os_at w j) (str (url x)) (title x)))
     \<and> (\<not> truthy (url x) \<and> truthy (id_t x) \<longrightarrow>
          (\<forall>u. stream_at w j (str (id_t x)) = Returns u \<and> u \<noteq> []
             \<longrightarrow> ev = Played u (title x) (playAndAwait (os_at w j) u (title x)))
          \<and> (stream_at w j (str (id_t x)) = Returns [] \<longrightarrow> ev = NoPlayableUrl (title x))
          \<and> (\<forall>e. stream_at w j (str (id_t x)) = Throws e \<longrightarrow> ev = FailedToResolve (title x) e))
     \<and> (\<not> truthy (url x) \<and> \<not> truthy (id_t x) \<longrightarrow> ev = NoPlayableUrl (title x))"
      by (intro cont_track_event) simp_all
    then obtain ev where ev: "cont_track w j x = (Next, [ev])"
      and tied: "(truthy (url x) \<longrightarrow>
          ev = Played (str (url x)) (title x) (playAndAwait (os_at w j) (str (url x)) (title x)))
     \<and> (\<not> truthy (url x) \<and> truthy (id_t x) \<longrightarrow>
          (\<forall>u. stream_at w j (str (id_t x)) = Returns u \<and> u \<noteq> []
             \<longrightarrow> ev = Played u (title x) (playAndAwait (os_at w j) u (title x)))
          \<and> (stream_at w j (str (id_t x)) = Returns [] \<longrightarrow> ev = NoPlayableUrl (title x))
          \<and> (\<forall>e. stream_at w j (str (id_t x)) = Throws e \<longrightarrow> ev = FailedToResolve (title x) e))
     \<and> (\<not> truthy (url x) \<and> \<not> truthy (id_t x) \<longrightarrow> ev = NoPlayableUrl (title x))"
      by blast
    from ev have "f j x = ev" by (simp add: f_def)
    with ev tied show ?thesis by simp
  qed
  have ct: "cont_track w j x = (Next, [f j x])" for j x using one [of j x] by blast
  define evs where "evs = map (\<lambda>i. f (Suc (length tpre) + i) (tpost ! i)) [0..<length tpost]"
  have len: "length (tracks pl) = Suc (length tpre) + length tpost" using h by simp
  have nx: "\<forall>j. Suc (length tpre) \<le> j \<and> j < length (tracks pl)
              \<longrightarrow> fst (cont_track w j (tracks pl ! j)) = Next"
    by (simp add: ct)
  have "map (\<lambda>j. f j (tracks pl ! j)) [Suc (length tpre)..<length (tracks pl)] = evs"
    unfolding evs_def len
  proof (rule nth_equalityI)
    show "length (map (\<lambda>j. f j (tracks pl ! j)) [Suc (length tpre)..<Suc (length tpre) + length tpost])
        = length (map (\<lambda>i. f (Suc (length tpre) + i) (tpost ! i)) [0..<length tpost])"
      by (simp only: length_map length_upt add_diff_cancel_left' diff_zero)
  next
    fix i
    assume "i < length (map (\<lambda>j. f j (tracks pl ! j)) [Suc (length tpre)..<Suc (length tpre) + length tpost])"
    then have i: "i < length tpost"
      by (simp only: length_map length_upt add_diff_cancel_left')
    have i1: "i < length [Suc (length tpre)..<Suc (length tpre) + length tpost]"
      using i by (simp only: length_upt add_diff_cancel_left')
    have i2: "i < length [0..<length tpost]" using i by (simp only: length_upt diff_zero)
    have n1: "[Suc (length tpre)..<Suc (length tpre) + length tpost] ! i = Suc (length tpre) + i"
      by (rule nth_upt) (use i in simp)
    have n2: "[0..<length tpost] ! i = i" using nth_upt [of 0 i "length tpost"] i by simp
    have tr: "tracks pl ! (Suc (length tpre) + i) = tpost ! i"
      using h by (simp add: nth_append)
    show "map (\<lambda>j. f j (tracks pl ! j)) [Suc (length tpre)..<Suc (length tpre) + length tpost] ! i
        = map (\<lambda>i. f (Suc (length tpre) + i) (tpost ! i)) [0..<length tpost] ! i"
      by (simp only: nth_map [OF i1] nth_map [OF i2] n1 n2 tr)
  qed
  with cont_from_all [OF nx]
  have "cont_from w (tracks pl) (Suc (length tpre)) = (Next, evs)"
    by (simp add: ct)
  with m s have "continuation w d vid = (Next, Continuing (name pl) # evs @ [PlaylistFinished])"
    by simp
  with r have run: "handleYouTubeStream_play sys w d audioUrl vid ttl
      = (Returns b, playAndAwait sys audioUrl ttl, Continuing (name pl) # evs @ [PlaylistFinished])"
    by (simp add: handleYouTubeStream_play_Returns)
  from run show "fst (handleYouTubeStream_play sys w d audioUrl vid ttl) = Returns b" by simp
  from run show "fst (snd (handleYouTubeStream_play sys w d audioUrl vid ttl))
                 = playAndAwait sys audioUrl ttl" by simp
  have a: "snd (snd (handleYouTubeStream_play sys w d audioUrl vid ttl))
                     = Continuing (name pl) # evs @ [PlaylistFinished]"
    using run by simp
  have l: "length evs = length tpost" by (simp add: evs_def)
  have e: "evs ! i = f (Suc (length tpre) + i) (tpost ! i)" if "i < length tpost" for i
    using that by (simp add: evs_def)
  have p: "\<forall>i<length tpost.
                        (truthy (url (tpost ! i)) \<longrightarrow>
                           evs ! i = Played (str (url (tpost ! i))) (title (tpost ! i))
                                       (playAndAwait (os_at w (Suc (length tpre) + i))
                                          (str (url (tpost ! i))) (title (tpost ! i))))
                        \<and> (\<not> truthy (url (tpost ! i)) \<and> truthy (id_t (tpost ! i)) \<longrightarrow>
                             (\<forall>u. stream_at w (Suc (length tpre) + i) (str (id_t (tpost ! i)))
                                    = Returns u \<and> u \<noteq> []
                                \<longrightarrow> evs ! i = Played u (title (tpost ! i))
                                       (playAndAwait (os_at w (Suc (length tpre) + i)) u
                                          (title (tpost ! i))))
                             \<and> (stream_at w (Suc (length tpre) + i) (str (id_t (tpost ! i)))
                                    = Returns []
                                \<longrightarrow> evs ! i = NoPlayableUrl (title (tpost ! i)))
                             \<and> (\<forall>e. stream_at w (Suc (length tpre) + i) (str (id_t (tpost ! i)))
                                    = Throws e
                                \<longrightarrow> evs ! i = FailedToResolve (title (tpost ! i)) e))
                        \<and> (\<not> truthy (url (tpost ! i)) \<and> \<not> truthy (id_t (tpost ! i)) \<longrightarrow>
                             evs ! i = NoPlayableUrl (title (tpost ! i)))"
  proof (intro allI impI)
    fix i
    assume i: "i < length tpost"
    show "(truthy (url (tpost ! i)) \<longrightarrow>
                           evs ! i = Played (str (url (tpost ! i))) (title (tpost ! i))
                                       (playAndAwait (os_at w (Suc (length tpre) + i))
                                          (str (url (tpost ! i))) (title (tpost ! i))))
                        \<and> (\<not> truthy (url (tpost ! i)) \<and> truthy (id_t (tpost ! i)) \<longrightarrow>
                             (\<forall>u. stream_at w (Suc (length tpre) + i) (str (id_t (tpost ! i)))
                                    = Returns u \<and> u \<noteq> []
                                \<longrightarrow> evs ! i = Played u (title (tpost ! i))
                                       (playAndAwait (os_at w (Suc (length tpre) + i)) u
                                          (title (tpost ! i))))
                             \<and> (stream_at w (Suc (length tpre) + i) (str (id_t (tpost ! i)))
                                    = Returns []
                                \<longrightarrow> evs ! i = NoPlayableUrl (title (tpost ! i)))
                             \<and> (\<forall>e. stream_at w (Suc (length tpre) + i) (str (id_t (tpost ! i)))
                                    = Throws e
                                \<longrightarrow> evs ! i = FailedToResolve (title (tpost ! i)) e))
                        \<and> (\<not> truthy (url (tpost ! i)) \<and> \<not> truthy (id_t (tpost ! i)) \<longrightarrow>
                             evs ! i = NoPlayableUrl (title (tpost ! i)))"
      unfolding e [OF i]
      using one [of "Suc (length tpre) + i" "tpost ! i", THEN conjunct2] .
  qed
  from a l p show "\<exists>evs.
                   snd (snd (handleYouTubeStream_play sys w d audioUrl vid ttl))
                     = Continuing (name pl) # evs @ [PlaylistFinished]
                   \<and> length evs = length tpost
                   \<and> (\<forall>i<length tpost.
                        (truthy (url (tpost ! i)) \<longrightarrow>
                           evs ! i = Played (str (url (tpost ! i))) (title (tpost ! i))
                                       (playAndAwait (os_at w (Suc (length tpre) + i))
                                          (str (url (tpost ! i))) (title (tpost ! i))))
                        \<and> (\<not> truthy (url (tpost ! i)) \<and> truthy (id_t (tpost ! i)) \<longrightarrow>
                             (\<forall>u. stream_at w (Suc (length tpre) + i) (str (id_t (tpost ! i)))
                                    = Returns u \<and> u \<noteq> []
                                \<longrightarrow> evs ! i = Played u (title (tpost ! i))
                                       (playAndAwait (os_at w (Suc (length tpre) + i)) u
                                          (title (tpost ! i))))
                             \<and> (stream_at w (Suc (length tpre) + i) (str (id_t (tpost ! i)))
                                    = Returns []
                                \<longrightarrow> evs ! i = NoPlayableUrl (title (tpost ! i)))
                             \<and> (\<forall>e. stream_at w (Suc (length tpre) + i) (str (id_t (tpost ! i)))
                                    = Throws e
                                \<longrightarrow> evs ! i = FailedToResolve (title (tpost ! i)) e))
                        \<and> (\<not> truthy (url (tpost ! i)) \<and> \<not> truthy (id_t (tpost ! i)) \<longrightarrow>
                             evs ! i = NoPlayableUrl (title (tpost ! i))))"
    by blast
qed

lemma settle_world_quiet:
  "(\<forall>j v. stream_at world_quiet j v \<noteq> Hangs)
   \<and> (\<forall>j. \<forall>c\<in>set (availablePlayers (platform (os_at world_quiet j))).
          probe_promise (probe (os_at world_quiet j) c) \<noteq> Pending)
   \<and> (\<forall>j c a io. launch (os_at world_quiet j) c a io \<noteq> Child [])"
  by (simp add: world_quiet_def os_mpv_def os_events_def availablePlayers_def players_def
      probe_promise_def)

lemma playAndAwait_os_mpv:
  "result (playAndAwait os_mpv u ttl) = Returns True"
  by (simp add: playAndAwait_def os_mpv_def detect_os_events launch_os_events truthy_def str_def
      playAndAwait_spawn_def await_child_def)

theorem continuation_plays_suffix_witness:
  "result (playAndAwait os_mpv ''http://a'' ''A'') = Returns True
   \<and> result (playAndAwait os_mpv ''http://c'' ''C'') = Returns True
   \<and> result (playAndAwait os_mpv ''http://z'' ''Z'') = Returns True
   \<and> listPlaylists disk_shelf = Lists ([pl_rock] @ pl_mixtape # [pl_encore])
   \<and> list_all (\<lambda>q. list_all (\<lambda>x. id_t x \<noteq> Some ''idz'') (tracks q)) [pl_rock, pl_mixtape, pl_encore]
   \<and> list_all (\<lambda>q. list_all (\<lambda>x. id_t x \<noteq> Some ''ida'') (tracks q)) [pl_rock]
   \<and> list_all (\<lambda>q. list_all (\<lambda>x. id_t x \<noteq> Some ''idc'') (tracks q)) [pl_rock]
   \<and> tracks pl_mixtape = [] @ track_a # [track_b, track_e, track_d, track_c]
   \<and> id_t track_a = Some ''ida''
   \<and> tracks pl_mixtape = [track_a, track_b, track_e, track_d] @ track_c # []
   \<and> id_t track_c = Some ''idc''
   \<and> list_all (\<lambda>x. id_t x \<noteq> Some ''idc'') [track_a, track_b, track_e, track_d]
   \<and> tracks pl_encore = [track_c, track_a]
   \<and> (\<forall>j v. stream_at world_quiet j v \<noteq> Hangs)
   \<and> (\<forall>j. list_all (\<lambda>c. probe_promise (probe (os_at world_quiet j) c) \<noteq> Pending)
          (availablePlayers (platform (os_at world_quiet j))))
   \<and> (\<forall>j c a io. launch (os_at world_quiet j) c a io \<noteq> Child [])
   \<and> handleYouTubeStream_play os_mpv world_quiet disk_shelf ''http://z'' ''idz'' ''Z''
       = (Returns True, playAndAwait os_mpv ''http://z'' ''Z'', [])
   \<and> handleYouTubeStream_play os_mpv world_quiet disk_shelf ''http://c'' ''idc'' ''C''
       = (Returns True, playAndAwait os_mpv ''http://c'' ''C'', [])
   \<and> handleYouTubeStream_play os_mpv world_quiet disk_shelf ''http://a'' ''ida'' ''A''
       = (Returns True, playAndAwait os_mpv ''http://a'' ''A'',
          [Continuing ''mixtape'',
           FailedToResolve ''B'' ''not available'',
           Played ''http://ide'' ''E'' (playAndAwait os_mpv ''http://ide'' ''E''),
           NoPlayableUrl ''D'',
           Played ''http://c'' ''C'' (playAndAwait os_mpv ''http://c'' ''C''),
           PlaylistFinished])"
proof -
  let ?H = "handleYouTubeStream_play os_mpv world_quiet disk_shelf ''http://a'' ''ida'' ''A''"
  have l: "listPlaylists disk_shelf = Lists ([pl_rock] @ pl_mixtape # [pl_encore])"
    by (simp add: listPlaylists_def loadPlaylists_def disk_shelf_def)
  have tr: "tracks pl_rock = []" "tracks pl_mixtape = [track_a, track_b, track_e, track_d, track_c]"
    "tracks pl_encore = [track_c, track_a]" "name pl_mixtape = ''mixtape''"
    by (simp_all add: pl_rock_def pl_mixtape_def pl_encore_def mixtape_def)
  have ids: "id_t track_a = Some ''ida''" "id_t track_b = Some ''idb''" "id_t track_c = Some ''idc''"
    "id_t track_d = None" "id_t track_e = Some ''ide''"
    by (simp_all add: track_a_def track_b_def track_c_def track_d_def track_e_def)
  have z: "\<forall>q\<in>set [pl_rock, pl_mixtape, pl_encore]. \<forall>x\<in>set (tracks q). id_t x \<noteq> Some ''idz''"
    by (simp add: tr ids)
  have pa: "\<forall>q\<in>set [pl_rock]. \<forall>x\<in>set (tracks q). id_t x \<noteq> Some ''ida''"
    and pc: "\<forall>q\<in>set [pl_rock]. \<forall>x\<in>set (tracks q). id_t x \<noteq> Some ''idc''"
    by (simp_all add: tr)
  have sa: "tracks pl_mixtape = [] @ track_a # [track_b, track_e, track_d, track_c]"
    "\<forall>x\<in>set []. id_t x \<noteq> Some ''ida''"
    by (simp_all add: tr)
  have sc: "tracks pl_mixtape = [track_a, track_b, track_e, track_d] @ track_c # []"
    "\<forall>x\<in>set [track_a, track_b, track_e, track_d]. id_t x \<noteq> Some ''idc''"
    by (simp_all add: tr ids)
  note q = settle_world_quiet
  note r = playAndAwait_os_mpv
  from r [of "''http://z''" "''Z''"] l z
  have hz: "result (playAndAwait os_mpv ''http://z'' ''Z'') = Returns True
        \<and> listPlaylists disk_shelf = Lists [pl_rock, pl_mixtape, pl_encore]
        \<and> (\<forall>q\<in>set [pl_rock, pl_mixtape, pl_encore]. \<forall>x\<in>set (tracks q). id_t x \<noteq> Some ''idz'')"
    by simp
  from continuation_plays_suffix [where sys = os_mpv and audioUrl = "''http://z''" and ttl = "''Z''"
      and d = disk_shelf and vid = "''idz''" and w = world_quiet, THEN conjunct1, rule_format, OF hz]
  have c1: "handleYouTubeStream_play os_mpv world_quiet disk_shelf ''http://z'' ''idz'' ''Z''
       = (Returns True, playAndAwait os_mpv ''http://z'' ''Z'', [])" .
  from r [of "''http://c''" "''C''"] l pc sc ids
  have hc: "result (playAndAwait os_mpv ''http://c'' ''C'') = Returns True
        \<and> listPlaylists disk_shelf = Lists ([pl_rock] @ pl_mixtape # [pl_encore])
        \<and> (\<forall>q\<in>set [pl_rock]. \<forall>x\<in>set (tracks q). id_t x \<noteq> Some ''idc'')
        \<and> tracks pl_mixtape = [track_a, track_b, track_e, track_d] @ track_c # []
        \<and> id_t track_c = Some ''idc''
        \<and> (\<forall>x\<in>set [track_a, track_b, track_e, track_d]. id_t x \<noteq> Some ''idc'')"
    by blast
  from continuation_plays_suffix [where sys = os_mpv and audioUrl = "''http://c''" and ttl = "''C''"
      and d = disk_shelf and vid = "''idc''" and w = world_quiet, THEN conjunct2, rule_format, OF hc,
      THEN conjunct1]
  have c2: "handleYouTubeStream_play os_mpv world_quiet disk_shelf ''http://c'' ''idc'' ''C''
       = (Returns True, playAndAwait os_mpv ''http://c'' ''C'', [])"
    by simp
  from r [of "''http://a''" "''A''"] l pa sa ids
  have ha: "result (playAndAwait os_mpv ''http://a'' ''A'') = Returns True
        \<and> listPlaylists disk_shelf = Lists ([pl_rock] @ pl_mixtape # [pl_encore])
        \<and> (\<forall>q\<in>set [pl_rock]. \<forall>x\<in>set (tracks q). id_t x \<noteq> Some ''ida'')
        \<and> tracks pl_mixtape = [] @ track_a # [track_b, track_e, track_d, track_c]
        \<and> id_t track_a = Some ''ida''
        \<and> (\<forall>x\<in>set []. id_t x \<noteq> Some ''ida'')"
    by blast
  from q have hs: "[track_b, track_e, track_d, track_c] \<noteq> []
            \<and> (\<forall>j v. stream_at world_quiet j v \<noteq> Hangs)
            \<and> (\<forall>j. \<forall>c\<in>set (availablePlayers (platform (os_at world_quiet j))).
                   probe_promise (probe (os_at world_quiet j) c) \<noteq> Pending)
            \<and> (\<forall>j c a io. launch (os_at world_quiet j) c a io \<noteq> Child [])"
    by blast
  note S = continuation_plays_suffix [where sys = os_mpv and audioUrl = "''http://a''" and ttl = "''A''"
      and d = disk_shelf and vid = "''ida''" and w = world_quiet, THEN conjunct2, rule_format, OF ha,
      THEN conjunct2, rule_format, OF hs]
  from S [THEN conjunct1] have f1: "fst ?H = Returns True" .
  from S [THEN conjunct2, THEN conjunct1] have f2: "fst (snd ?H) = playAndAwait os_mpv ''http://a'' ''A''" .
  from S [THEN conjunct2, THEN conjunct2]
  obtain evs where E: "snd (snd ?H) = Continuing (name pl_mixtape) # evs @ [PlaylistFinished]
    \<and> length evs = length [track_b, track_e, track_d, track_c]
    \<and> (\<forall>i<length [track_b, track_e, track_d, track_c].
              (truthy (url ([track_b, track_e, track_d, track_c] ! i)) \<longrightarrow>
                 evs ! i = Played (str (url ([track_b, track_e, track_d, track_c] ! i)))
                             (title ([track_b, track_e, track_d, track_c] ! i))
                             (playAndAwait (os_at world_quiet (Suc (length ([]::StoredTrack list)) + i))
                                (str (url ([track_b, track_e, track_d, track_c] ! i)))
                                (title ([track_b, track_e, track_d, track_c] ! i))))
              \<and> (\<not> truthy (url ([track_b, track_e, track_d, track_c] ! i))
                  \<and> truthy (id_t ([track_b, track_e, track_d, track_c] ! i)) \<longrightarrow>
                   (\<forall>u. stream_at world_quiet (Suc (length ([]::StoredTrack list)) + i)
                           (str (id_t ([track_b, track_e, track_d, track_c] ! i)))
                          = Returns u \<and> u \<noteq> []
                      \<longrightarrow> evs ! i = Played u (title ([track_b, track_e, track_d, track_c] ! i))
                             (playAndAwait (os_at world_quiet (Suc (length ([]::StoredTrack list)) + i)) u
                                (title ([track_b, track_e, track_d, track_c] ! i))))
                   \<and> (stream_at world_quiet (Suc (length ([]::StoredTrack list)) + i)
                           (str (id_t ([track_b, track_e, track_d, track_c] ! i)))
                          = Returns []
                      \<longrightarrow> evs ! i = NoPlayableUrl (title ([track_b, track_e, track_d, track_c] ! i)))
                   \<and> (\<forall>e. stream_at world_quiet (Suc (length ([]::StoredTrack list)) + i)
                           (str (id_t ([track_b, track_e, track_d, track_c] ! i)))
                          = Throws e
                      \<longrightarrow> evs ! i = FailedToResolve (title ([track_b, track_e, track_d, track_c] ! i)) e))
              \<and> (\<not> truthy (url ([track_b, track_e, track_d, track_c] ! i))
                  \<and> \<not> truthy (id_t ([track_b, track_e, track_d, track_c] ! i)) \<longrightarrow>
                   evs ! i = NoPlayableUrl (title ([track_b, track_e, track_d, track_c] ! i))))"
    by (rule exE) (rule that)
  note e = E [THEN conjunct1]
  note n = E [THEN conjunct2, THEN conjunct1]
  note R = E [THEN conjunct2, THEN conjunct2]
  have os: "os_at world_quiet j = os_mpv" for j by (simp add: world_quiet_def)
  have st: "stream_at world_quiet j v
      = (if v = ''idb'' then Throws ''not available'' else Returns (''http://'' @ v))" for j v
    by (simp add: world_quiet_def)
  have e0: "evs ! 0 = FailedToResolve ''B'' ''not available''"
    using R [rule_format, of 0] by (simp add: track_b_def truthy_def str_def st)
  have e1: "evs ! Suc 0 = Played ''http://ide'' ''E'' (playAndAwait os_mpv ''http://ide'' ''E'')"
    using R [rule_format, of "Suc 0"] by (simp add: track_e_def truthy_def str_def st os)
  have e2: "evs ! Suc (Suc 0) = NoPlayableUrl ''D''"
    using R [rule_format, of "Suc (Suc 0)"] by (simp add: track_d_def truthy_def)
  have e3: "evs ! Suc (Suc (Suc 0)) = Played ''http://c'' ''C'' (playAndAwait os_mpv ''http://c'' ''C'')"
    using R [rule_format, of "Suc (Suc (Suc 0))"] by (simp add: track_c_def truthy_def str_def os)
  from n obtain x0 x1 x2 x3 where x: "evs = [x0, x1, x2, x3]"
    by (auto simp: length_Suc_conv)
  from e0 e1 e2 e3 have "evs = [FailedToResolve ''B'' ''not available'',
           Played ''http://ide'' ''E'' (playAndAwait os_mpv ''http://ide'' ''E''),
           NoPlayableUrl ''D'',
           Played ''http://c'' ''C'' (playAndAwait os_mpv ''http://c'' ''C'')]"
    unfolding x by simp
  with e tr(4) have f3: "snd (snd ?H) = [Continuing ''mixtape'',
           FailedToResolve ''B'' ''not available'',
           Played ''http://ide'' ''E'' (playAndAwait os_mpv ''http://ide'' ''E''),
           NoPlayableUrl ''D'',
           Played ''http://c'' ''C'' (playAndAwait os_mpv ''http://c'' ''C''),
           PlaylistFinished]"
    by simp
  have c3: "?H = (Returns True, playAndAwait os_mpv ''http://a'' ''A'',
          [Continuing ''mixtape'',
           FailedToResolve ''B'' ''not available'',
           Played ''http://ide'' ''E'' (playAndAwait os_mpv ''http://ide'' ''E''),
           NoPlayableUrl ''D'',
           Played ''http://c'' ''C'' (playAndAwait os_mpv ''http://c'' ''C''),
           PlaylistFinished])"
    using f1 f2 f3 by (simp add: prod_eq_iff)
  have la: "list_all (\<lambda>q. list_all (\<lambda>x. id_t x \<noteq> Some ''idz'') (tracks q)) [pl_rock, pl_mixtape, pl_encore]"
    "list_all (\<lambda>q. list_all (\<lambda>x. id_t x \<noteq> Some ''ida'') (tracks q)) [pl_rock]"
    "list_all (\<lambda>q. list_all (\<lambda>x. id_t x \<noteq> Some ''idc'') (tracks q)) [pl_rock]"
    "list_all (\<lambda>x. id_t x \<noteq> Some ''idc'') [track_a, track_b, track_e, track_d]"
    by (simp_all add: tr ids)
  have qa: "\<forall>j. list_all (\<lambda>c. probe_promise (probe (os_at world_quiet j) c) \<noteq> Pending)
          (availablePlayers (platform (os_at world_quiet j)))"
    using q by (simp only: list_all_iff) blast
  from r [of "''http://a''" "''A''"] r [of "''http://c''" "''C''"] r [of "''http://z''" "''Z''"]
    l la sa(1) sc(1) ids(1,3) tr(3) q qa c1 c2 c3
  show ?thesis by blast
qed

lemma cont_from_settled:
  assumes "\<forall>j v. stream_at w j v \<noteq> Hangs"
    and "\<forall>j. \<forall>c\<in>set (availablePlayers (platform (os_at w j))).
           probe_promise (probe (os_at w j) c) \<noteq> Pending"
    and "\<forall>j c a io. launch (os_at w j) c a io \<noteq> Child []"
  shows "fst (cont_from w ts i) = Next"
proof -
  have "fst (cont_track w j x) = Next" for j x
    using cont_track_settles [of w j x] assms by (metis fst_conv)
  then show ?thesis by (simp add: cont_from_all)
qed

lemma continuation_not_stuck:
  assumes "\<forall>j v. stream_at w j v \<noteq> Hangs"
    and "\<forall>j. \<forall>c\<in>set (availablePlayers (platform (os_at w j))).
           probe_promise (probe (os_at w j) c) \<noteq> Pending"
    and "\<forall>j c a io. launch (os_at w j) c a io \<noteq> Child []"
  shows "fst (continuation w d vid) \<noteq> Stuck"
proof -
  have "fst (case cont_from w ts i of
                (Next, evs) \<Rightarrow> (Next, Continuing nm # evs @ [PlaylistFinished])
              | (Return, evs) \<Rightarrow> (Return, Continuing nm # evs)
              | (Reject e, evs) \<Rightarrow> (Reject e, Continuing nm # evs)
              | (Stuck, evs) \<Rightarrow> (Stuck, Continuing nm # evs)) \<noteq> Stuck" for ts i nm
    using cont_from_settled [OF assms, of ts i]
    by (cases "cont_from w ts i") auto
  then show ?thesis
    by (simp add: continuation_def Let_def split: loaded.splits option.splits)
qed

lemma continuation_unreadable:
  "content d = Absent \<or> content d = Unparsable \<Longrightarrow> continuation w d vid = (Next, [])"
  by (auto simp: continuation_def listPlaylists_def loadPlaylists_def)

lemma continuation_junk:
  "content d = NotAnArray \<Longrightarrow> continuation w d vid = (Reject ''TypeError'', [])"
  by (simp add: continuation_def listPlaylists_def loadPlaylists_def)

text \<open>
  C4: what follows the first playback never changes its outcome. The function never
  raises. When the first playback returned \<open>b\<close>, the function returns \<open>b\<close> or, when an await
  of the continuation never settles, does not return. A store that is absent, unparsable
  or not an array leaves \<open>b\<close> as the result and nothing continued; on a store that is not
  an array the lookup raises a TypeError, which the handler drops. When every await of the
  continuation settles the function returns \<open>b\<close>, whatever failed on the way.
\<close>

theorem continuation_non_fatal:
  "(\<forall>e. fst (handleYouTubeStream_play sys w d audioUrl vid ttl) \<noteq> Throws e)
   \<and> (\<forall>b. result (playAndAwait sys audioUrl ttl) = Returns b
        \<longrightarrow> fst (handleYouTubeStream_play sys w d audioUrl vid ttl) = Returns b
          \<or> fst (handleYouTubeStream_play sys w d audioUrl vid ttl) = Hangs)
   \<and> (\<forall>b. result (playAndAwait sys audioUrl ttl) = Returns b
          \<and> (content d = Absent \<or> content d = Unparsable \<or> content d = NotAnArray)
        \<longrightarrow> handleYouTubeStream_play sys w d audioUrl vid ttl = (Returns b, playAndAwait sys audioUrl ttl, []))
   \<and> (content d = NotAnArray \<longrightarrow> continuation w d vid = (Reject ''TypeError'', []))
   \<and> (\<forall>b. result (playAndAwait sys audioUrl ttl) = Returns b
          \<and> (\<forall>j v. stream_at w j v \<noteq> Hangs)
          \<and> (\<forall>j. \<forall>c\<in>set (availablePlayers (platform (os_at w j))).
                 probe_promise (probe (os_at w j) c) \<noteq> Pending)
          \<and> (\<forall>j c a io. launch (os_at w j) c a io \<noteq> Child [])
        \<longrightarrow> fst (handleYouTubeStream_play sys w d audioUrl vid ttl) = Returns b)"
proof -
  have a: "fst (handleYouTubeStream_play sys w d audioUrl vid ttl) \<noteq> Throws e" for e
  proof (cases "result (playAndAwait sys audioUrl ttl)")
    case (Returns b)
    then show ?thesis by (simp add: handleYouTubeStream_play_Returns)
  next
    case (Throws x)
    then show ?thesis by (simp add: handleYouTubeStream_play_def Let_def)
  next
    case Hangs
    then show ?thesis by (simp add: handleYouTubeStream_play_def Let_def)
  qed
  have b: "fst (handleYouTubeStream_play sys w d audioUrl vid ttl) = Returns b
          \<or> fst (handleYouTubeStream_play sys w d audioUrl vid ttl) = Hangs"
    if "result (playAndAwait sys audioUrl ttl) = Returns b" for b
    using that by (simp add: handleYouTubeStream_play_Returns)
  have c: "handleYouTubeStream_play sys w d audioUrl vid ttl = (Returns b, playAndAwait sys audioUrl ttl, [])"
    if "result (playAndAwait sys audioUrl ttl) = Returns b
          \<and> (content d = Absent \<or> content d = Unparsable \<or> content d = NotAnArray)" for b
    using that continuation_unreadable [of d w vid] continuation_junk [of d w vid]
    by (auto simp: handleYouTubeStream_play_Returns)
  have d: "content d = NotAnArray \<longrightarrow> continuation w d vid = (Reject ''TypeError'', [])"
    by (simp add: continuation_junk)
  have e: "fst (handleYouTubeStream_play sys w d audioUrl vid ttl) = Returns b"
    if "result (playAndAwait sys audioUrl ttl) = Returns b
          \<and> (\<forall>j v. stream_at w j v \<noteq> Hangs)
          \<and> (\<forall>j. \<forall>c\<in>set (availablePlayers (platform (os_at w j))).
                 probe_promise (probe (os_at w j) c) \<noteq> Pending)
          \<and> (\<forall>j c a io. launch (os_at w j) c a io \<noteq> Child [])" for b
  proof -
    from that have "fst (continuation w d vid) \<noteq> Stuck"
      by (intro continuation_not_stuck) blast+
    with that show ?thesis by (simp add: handleYouTubeStream_play_Returns)
  qed
  from a b c d e show ?thesis by blast
qed

lemma playAndAwait_os_failing:
  "result (playAndAwait os_failing u ttl) = Returns False"
  by (simp add: playAndAwait_def os_failing_def detect_os_events launch_os_events truthy_def str_def
      playAndAwait_spawn_def await_child_def)

lemma continuation_trip:
  "continuation world_quiet disk_trip ''ida''
     = (Next, [Continuing ''road-trip'', FailedToResolve ''B'' ''not available'', NoPlayableUrl ''D'',
               Played ''http://c'' ''C'' (playAndAwait os_mpv ''http://c'' ''C''), PlaylistFinished])"
proof -
  have c1: "cont_track world_quiet (Suc 0) track_b = (Next, [FailedToResolve ''B'' ''not available''])"
    by (simp add: cont_track_def track_b_def truthy_def str_def world_quiet_def)
  have c2: "cont_track world_quiet 2 track_d = (Next, [NoPlayableUrl ''D''])"
    by (simp add: cont_track_def track_d_def truthy_def)
  have c3: "cont_track world_quiet 3 track_c
      = (Next, [Played ''http://c'' ''C'' (playAndAwait os_mpv ''http://c'' ''C'')])"
    by (simp add: cont_track_def track_c_def truthy_def str_def world_quiet_def playAndAwait_os_mpv)
  have n: "road_trip ! Suc 0 = track_b" "road_trip ! 2 = track_d" "road_trip ! 3 = track_c"
    "length road_trip = 4"
    by (simp_all add: road_trip_def)
  have "fst (cont_track world_quiet j (road_trip ! j)) = Next" if "Suc 0 \<le> j \<and> j < length road_trip" for j
  proof -
    from that n(4) have "j = Suc 0 \<or> j = 2 \<or> j = 3" by auto
    then show ?thesis using c1 c2 c3 n by auto
  qed
  then have "cont_from world_quiet road_trip (Suc 0)
      = (Next, concat (map (\<lambda>j. snd (cont_track world_quiet j (road_trip ! j))) [Suc 0..<length road_trip]))"
    by (intro cont_from_all) simp
  also have "[Suc 0..<length road_trip] = [Suc 0, 2, 3]" by (simp add: n upt_rec)
  finally have cf: "cont_from world_quiet road_trip (Suc 0)
      = (Next, [FailedToResolve ''B'' ''not available'', NoPlayableUrl ''D'',
               Played ''http://c'' ''C'' (playAndAwait os_mpv ''http://c'' ''C'')])"
    by (simp add: c1 c2 c3 n)
  have l: "listPlaylists disk_trip = Lists [pl_trip]"
    by (simp add: listPlaylists_def loadPlaylists_def disk_trip_def)
  have tr: "tracks pl_trip = road_trip" "name pl_trip = ''road-trip''" by (simp_all add: pl_trip_def)
  have fi: "findIndex (\<lambda>t. id_t t = Some ''ida'') road_trip = 0"
    by (simp add: road_trip_def track_a_def)
  have ex: "list_ex (\<lambda>t. id_t t = Some ''ida'') road_trip"
    by (simp add: road_trip_def track_a_def)
  show ?thesis
    by (simp add: continuation_def l tr fi ex n cf)
qed

theorem continuation_non_fatal_witness:
  "result (playAndAwait os_failing ''u'' ''t'') = Returns False
   \<and> content disk_junk = NotAnArray
   \<and> continuation world_quiet disk_junk ''x'' = (Reject ''TypeError'', [])
   \<and> handleYouTubeStream_play os_failing world_quiet disk_junk ''u'' ''x'' ''t''
       = (Returns False, playAndAwait os_failing ''u'' ''t'', [])
   \<and> result (playAndAwait os_mpv ''http://a'' ''A'') = Returns True
   \<and> (\<forall>j v. stream_at world_quiet j v \<noteq> Hangs)
   \<and> (\<forall>j. list_all (\<lambda>c. probe_promise (probe (os_at world_quiet j) c) \<noteq> Pending)
          (availablePlayers (platform (os_at world_quiet j))))
   \<and> (\<forall>j c a io. launch (os_at world_quiet j) c a io \<noteq> Child [])
   \<and> continuation world_quiet disk_trip ''ida''
       = (Next, [Continuing ''road-trip'', FailedToResolve ''B'' ''not available'', NoPlayableUrl ''D'',
                 Played ''http://c'' ''C'' (playAndAwait os_mpv ''http://c'' ''C''), PlaylistFinished])
   \<and> fst (handleYouTubeStream_play os_mpv world_quiet disk_trip ''http://a'' ''ida'' ''A'') = Returns True"
proof -
  have j: "content disk_junk = NotAnArray" by (simp add: disk_junk_def)
  note T1 = continuation_non_fatal [of os_failing world_quiet disk_junk "''u''" "''x''" "''t''"]
  note T2 = continuation_non_fatal [of os_mpv world_quiet disk_trip "''http://a''" "''ida''" "''A''"]
  from playAndAwait_os_failing [of "''u''" "''t''"] j
  have h1: "result (playAndAwait os_failing ''u'' ''t'') = Returns False
          \<and> (content disk_junk = Absent \<or> content disk_junk = Unparsable
              \<or> content disk_junk = NotAnArray)" by simp
  from T1 [THEN conjunct2, THEN conjunct2, THEN conjunct1, rule_format, OF h1]
  have c1: "handleYouTubeStream_play os_failing world_quiet disk_junk ''u'' ''x'' ''t''
       = (Returns False, playAndAwait os_failing ''u'' ''t'', [])" .
  from T1 [THEN conjunct2, THEN conjunct2, THEN conjunct2, THEN conjunct1, rule_format, OF j]
  have c2: "continuation world_quiet disk_junk ''x'' = (Reject ''TypeError'', [])" .
  from playAndAwait_os_mpv [of "''http://a''" "''A''"] settle_world_quiet
  have h2: "result (playAndAwait os_mpv ''http://a'' ''A'') = Returns True
          \<and> (\<forall>j v. stream_at world_quiet j v \<noteq> Hangs)
          \<and> (\<forall>j. \<forall>c\<in>set (availablePlayers (platform (os_at world_quiet j))).
                 probe_promise (probe (os_at world_quiet j) c) \<noteq> Pending)
          \<and> (\<forall>j c a io. launch (os_at world_quiet j) c a io \<noteq> Child [])" by blast
  from T2 [THEN conjunct2, THEN conjunct2, THEN conjunct2, THEN conjunct2, rule_format, OF h2]
  have c3: "fst (handleYouTubeStream_play os_mpv world_quiet disk_trip ''http://a'' ''ida'' ''A'') = Returns True" .
  have qa: "\<forall>j. list_all (\<lambda>c. probe_promise (probe (os_at world_quiet j) c) \<noteq> Pending)
          (availablePlayers (platform (os_at world_quiet j)))"
    using settle_world_quiet by (simp only: list_all_iff) blast
  from h1 j c1 c2 h2 qa c3 continuation_trip show ?thesis by blast
qed

end
